(* ===== verification/Babel_Prelude.thy ===== *)
theory Babel_Prelude
  imports Main "HOL-Library.Word" "HOL-Library.Sublist" "HOL-Library.AList"
begin

section \<open>Prelude: machine integers, strings and their library operations\<close>

text \<open>
  What the components share: names for the machine integers, Rust's string operations as they are
  used by the gateway, and the generic lemmas about lists, strings and association lists.

  A Rust \<open>String\<close> is a sequence of UTF-8 bytes; it is modelled as \<^typ>\<open>string\<close>, one \<^typ>\<open>char\<close>
  per byte, so \<open>len()\<close> is \<^const>\<open>length\<close> and slicing at a byte index is \<^const>\<open>take\<close> and
  \<^const>\<open>drop\<close>. A predicate that is false on every byte above 127 holds of all the characters of
  a string exactly when it holds of all its bytes, so \<open>chars().all(..)\<close> with an ASCII predicate is
  read bytewise. A \<open>HashMap\<close> is an association list with distinct keys.
\<close>

type_synonym u8 = "8 word"
type_synonym u16 = "16 word"
type_synonym u32 = "32 word"
type_synonym u64 = "64 word"
type_synonym bytes = "8 word list"

text \<open>The collections the component proofs draw on.\<close>

named_theorems str_simps \<open>evaluation and basic laws of the string operations\<close>
named_theorems inv_intros \<open>preservation of the component invariants\<close>

subsection \<open>Characters\<close>

definition byte_of :: "char \<Rightarrow> nat" where
  "byte_of c = of_char c"

definition is_ascii_digit :: "char \<Rightarrow> bool" where
  "is_ascii_digit c \<longleftrightarrow> 48 \<le> byte_of c \<and> byte_of c \<le> 57"

definition is_ascii_alphanumeric :: "char \<Rightarrow> bool" where
  "is_ascii_alphanumeric c \<longleftrightarrow> is_ascii_digit c
     \<or> (65 \<le> byte_of c \<and> byte_of c \<le> 90) \<or> (97 \<le> byte_of c \<and> byte_of c \<le> 122)"

definition is_ascii_control :: "char \<Rightarrow> bool" where
  "is_ascii_control c \<longleftrightarrow> byte_of c < 32 \<or> byte_of c = 127"

definition ascii_lower :: "char \<Rightarrow> char" where
  "ascii_lower c = (if 65 \<le> byte_of c \<and> byte_of c \<le> 90 then char_of (byte_of c + 32) else c)"

definition ascii_upper :: "char \<Rightarrow> char" where
  "ascii_upper c = (if 97 \<le> byte_of c \<and> byte_of c \<le> 122 then char_of (byte_of c - 32) else c)"

definition to_ascii_lowercase :: "string \<Rightarrow> string" where
  "to_ascii_lowercase s = map ascii_lower s"

definition to_ascii_uppercase :: "string \<Rightarrow> string" where
  "to_ascii_uppercase s = map ascii_upper s"

definition eq_ignore_ascii_case :: "string \<Rightarrow> string \<Rightarrow> bool" where
  "eq_ignore_ascii_case a b \<longleftrightarrow> to_ascii_lowercase a = to_ascii_lowercase b"

text \<open>
  \<open>str::to_lowercase\<close> is Unicode-aware. The gateway only compares its result with ASCII names, and
  the one character outside ASCII whose lower case is an ASCII letter is the Kelvin sign (bytes E2
  84 AA), which becomes \<open>k\<close>; every other character outside ASCII keeps a byte outside ASCII in its
  lower case and never takes part in a match.
\<close>

fun to_lowercase :: "string \<Rightarrow> string" where
  "to_lowercase (a # b # c # s) =
     (if byte_of a = 226 \<and> byte_of b = 132 \<and> byte_of c = 170 then CHR ''k'' # to_lowercase s
      else ascii_lower a # to_lowercase (b # c # s))"
| "to_lowercase s = map ascii_lower s"

text \<open>The number of bytes of the Unicode white space character a string starts with; 0 if none.\<close>

fun white_space_len :: "string \<Rightarrow> nat" where
  "white_space_len [] = 0"
| "white_space_len (a # s) =
     (if (9 \<le> byte_of a \<and> byte_of a \<le> 13) \<or> byte_of a = 32 then 1
      else case map byte_of (a # take 2 s) of
             b0 # b1 # bs \<Rightarrow>
               if b0 = 194 \<and> (b1 = 133 \<or> b1 = 160) then 2
               else (case bs of
                       b2 # _ \<Rightarrow>
                         if (b0 = 225 \<and> b1 = 154 \<and> b2 = 128)
                            \<or> (b0 = 226 \<and> b1 = 128 \<and>
                                ((128 \<le> b2 \<and> b2 \<le> 138) \<or> b2 = 168 \<or> b2 = 169 \<or> b2 = 175))
                            \<or> (b0 = 226 \<and> b1 = 129 \<and> b2 = 159)
                            \<or> (b0 = 227 \<and> b1 = 128 \<and> b2 = 128)
                         then 3 else 0
                     | [] \<Rightarrow> 0)
           | _ \<Rightarrow> 0)"

text \<open>\<open>s.trim().is_empty()\<close>: nothing but white space.\<close>

function trim_is_empty :: "string \<Rightarrow> bool" where
  "trim_is_empty s =
     (if s = [] then True
      else if white_space_len s = 0 then False
      else trim_is_empty (drop (white_space_len s) s))"
  by pat_completeness auto
termination
  by (relation "measure length") auto

declare trim_is_empty.simps [simp del]

subsection \<open>Prefixes, replacement, splitting\<close>

abbreviation starts_with :: "string \<Rightarrow> string \<Rightarrow> bool" where
  "starts_with s p \<equiv> prefix p s"

abbreviation ends_with :: "string \<Rightarrow> string \<Rightarrow> bool" where
  "ends_with s p \<equiv> suffix p s"

definition strip_prefix_str :: "string \<Rightarrow> string \<Rightarrow> string option" where
  "strip_prefix_str s p = (if prefix p s then Some (drop (length p) s) else None)"

text \<open>\<open>s.replace(pat, rep)\<close>: leftmost, non-overlapping, for a pattern that is not empty.\<close>

function str_replace :: "string \<Rightarrow> string \<Rightarrow> string \<Rightarrow> string" where
  "str_replace pat rep s =
     (if s = [] then []
      else if pat \<noteq> [] \<and> prefix pat s then rep @ str_replace pat rep (drop (length pat) s)
      else hd s # str_replace pat rep (tl s))"
  by pat_completeness auto
termination
  by (relation "measure (\<lambda>(_, _, s). length s)") auto

declare str_replace.simps [simp del]

text \<open>\<open>s.replacen(pat, rep, 1)\<close>: the first occurrence only.\<close>

fun str_replace_first :: "string \<Rightarrow> string \<Rightarrow> string \<Rightarrow> string" where
  "str_replace_first pat rep [] = []"
| "str_replace_first pat rep (c # s) =
     (if prefix pat (c # s) then rep @ drop (length pat) (c # s)
      else c # str_replace_first pat rep s)"

fun str_contains :: "string \<Rightarrow> string \<Rightarrow> bool" where
  "str_contains [] pat = (pat = [])"
| "str_contains (c # s) pat = (prefix pat (c # s) \<or> str_contains s pat)"

fun split_on :: "char \<Rightarrow> string \<Rightarrow> string list" where
  "split_on c [] = [[]]"
| "split_on c (x # xs) =
     (if x = c then [] # split_on c xs
      else case split_on c xs of [] \<Rightarrow> [[x]] | y # ys \<Rightarrow> (x # y) # ys)"

definition trim_end_matches :: "string \<Rightarrow> char \<Rightarrow> string" where
  "trim_end_matches s c = rev (dropWhile (\<lambda>x. x = c) (rev s))"

text \<open>\<open>find\<close> and \<open>rfind\<close> of one character, as the text before and after it.\<close>

fun split_at_first :: "char \<Rightarrow> string \<Rightarrow> (string \<times> string) option" where
  "split_at_first c [] = None"
| "split_at_first c (x # xs) =
     (if x = c then Some ([], xs)
      else map_option (\<lambda>(a, b). (x # a, b)) (split_at_first c xs))"

definition split_at_last :: "char \<Rightarrow> string \<Rightarrow> (string \<times> string) option" where
  "split_at_last c s =
     map_option (\<lambda>(a, b). (rev b, rev a)) (split_at_first c (rev s))"

subsection \<open>Numbers and their decimal text\<close>

fun show_nat :: "nat \<Rightarrow> string" where
  "show_nat n =
     (if n < 10 then [char_of (48 + n)] else show_nat (n div 10) @ [char_of (48 + n mod 10)])"

declare show_nat.simps [simp del]

definition digits_value :: "string \<Rightarrow> nat" where
  "digits_value ds = foldl (\<lambda>acc d. acc * 10 + (byte_of d - 48)) 0 ds"

text \<open>
  \<open>str::parse\<close> for an unsigned integer of \<open>w\<close> bits: an optional leading plus sign, at least one
  digit, nothing but digits, and a value that fits.
\<close>

definition parse_unsigned :: "nat \<Rightarrow> string \<Rightarrow> nat option" where
  "parse_unsigned w s =
     (let ds = (case s of c # r \<Rightarrow> if c = CHR ''+'' then r else s | [] \<Rightarrow> s)
      in if ds \<noteq> [] \<and> list_all is_ascii_digit ds \<and> digits_value ds < 2 ^ w
         then Some (digits_value ds) else None)"

text \<open>\<open>String::as_bytes\<close>.\<close>

definition as_bytes :: "string \<Rightarrow> bytes" where
  "as_bytes s = map of_char s"

definition saturating_sub :: "u64 \<Rightarrow> u64 \<Rightarrow> u64" where
  "saturating_sub a b = (if a < b then 0 else a - b)"

subsection \<open>Laws of splitting\<close>

lemma split_on_not_Nil [simp]: "split_on c s \<noteq> []"
  by (induction s) (auto split: list.splits)

lemma split_on_append_sep [str_simps]: "split_on c (a @ c # b) = split_on c a @ split_on c b"
  by (induction a) (auto split: list.splits)

lemma split_on_id [str_simps]: "c \<notin> set s \<Longrightarrow> split_on c s = [s]"
  by (induction s) auto

text \<open>Appending glues the last segment on the left to the first one on the right.\<close>

lemma split_on_append [str_simps]:
  "split_on c (a @ b) =
     butlast (split_on c a) @ (last (split_on c a) @ hd (split_on c b)) # tl (split_on c b)"
proof (induction a)
  case Nil
  show ?case by (cases "split_on c b") auto
next
  case (Cons x a)
  obtain y ys where "split_on c a = y # ys"
    by (cases "split_on c a") auto
  with Cons.IH show ?case by (cases ys) auto
qed

subsection \<open>Laws of replacement\<close>

lemma str_replace_Nil [simp]: "str_replace pat rep [] = []"
  by (simp add: str_replace.simps)

lemma str_replace_prefix:
  "pat \<noteq> [] \<Longrightarrow> str_replace pat rep (pat @ s) = rep @ str_replace pat rep s"
  by (subst str_replace.simps) simp

lemma str_replace_skip:
  "pat = [] \<or> \<not> prefix pat (c # s) \<Longrightarrow> str_replace pat rep (c # s) = c # str_replace pat rep s"
  by (subst str_replace.simps) auto

lemma str_replace_length:
  "length rep \<le> length pat \<Longrightarrow> length (str_replace pat rep s) \<le> length s"
proof (induction pat rep s rule: str_replace.induct)
  case (1 pat rep s)
  show ?case
  proof (cases "s \<noteq> [] \<and> pat \<noteq> [] \<and> prefix pat s")
    case True
    then obtain r where s: "s = pat @ r" by (auto simp: prefix_def)
    with True 1 have "length (str_replace pat rep r) \<le> length r" by auto
    with True "1.prems" show ?thesis by (simp add: s str_replace_prefix)
  next
    case False
    with 1 show ?thesis by (cases s) (auto simp: str_replace_skip)
  qed
qed

text \<open>With a shorter replacement, a string in which the pattern occurs gets shorter.\<close>

lemma str_replace_occurs:
  assumes "length rep < length pat"
  shows "length (str_replace pat rep (a @ pat @ b)) < length (a @ pat @ b)"
proof (induction a rule: length_induct)
  case (1 a)
  let ?s = "a @ pat @ b"
  have pat: "pat \<noteq> []" using assms by auto
  show ?case
  proof (cases "prefix pat ?s")
    case True
    then obtain r where s: "?s = pat @ r" by (auto simp: prefix_def)
    have "length (str_replace pat rep r) \<le> length r"
      using assms by (intro str_replace_length) simp
    with assms pat show ?thesis unfolding s by (simp add: str_replace_prefix)
  next
    case False
    then obtain x a' where a: "a = x # a'" by (cases a) auto
    with 1 have "length (str_replace pat rep (a' @ pat @ b)) < length (a' @ pat @ b)" by simp
    with False show ?thesis by (simp add: a str_replace_skip)
  qed
qed

lemma str_replace_shrinks:
  assumes "length rep < length pat"
  shows "str_replace pat rep s = s \<or> length (str_replace pat rep s) < length s"
proof (induction s rule: length_induct)
  case (1 s)
  have pat: "pat \<noteq> []" using assms by auto
  show ?case
  proof (cases s)
    case (Cons c r)
    show ?thesis
    proof (cases "prefix pat s")
      case True
      then show ?thesis using str_replace_occurs [OF assms, of "[]"] by (auto simp: prefix_def)
    next
      case False
      with 1 Cons show ?thesis by (auto simp: str_replace_skip)
    qed
  qed simp
qed

text \<open>Rewrites that either change nothing or make the list shorter.\<close>

definition shrinking :: "('a list \<Rightarrow> 'a list) \<Rightarrow> bool" where
  "shrinking f \<longleftrightarrow> (\<forall>q. f q = q \<or> length (f q) < length q)"

lemma shrinking_str_replace: "length rep < length pat \<Longrightarrow> shrinking (str_replace pat rep)"
  by (simp add: shrinking_def str_replace_shrinks)

lemma shrinking_comp: "shrinking f \<Longrightarrow> shrinking g \<Longrightarrow> shrinking (\<lambda>q. g (f q))"
  unfolding shrinking_def by (metis order.strict_trans)

lemma shrinking_fixed:
  assumes "shrinking f" "shrinking g"
  shows "g (f p) = p \<longleftrightarrow> f p = p \<and> g p = p"
proof
  assume "g (f p) = p"
  with assms have "f p = p" unfolding shrinking_def by (metis order.asym)
  with \<open>g (f p) = p\<close> show "f p = p \<and> g p = p" by simp
qed simp

subsection \<open>Unique normal forms\<close>

text \<open>
  Where two steps from one element can be joined by at most one step on each side, every element
  between a start and a normal form it reaches reaches that normal form too.
\<close>

lemma diamond_normal_form:
  assumes diamond: "\<And>s t u. R s t \<Longrightarrow> R s u \<Longrightarrow> t = u \<or> (\<exists>v. R t v \<and> R u v)"
    and normal: "\<And>t. \<not> R n t"
    and n: "R\<^sup>*\<^sup>* s n" and q: "R\<^sup>*\<^sup>* s q"
  shows "R\<^sup>*\<^sup>* q n"
proof -
  have step: "R\<^sup>*\<^sup>* x n \<Longrightarrow> R x y \<Longrightarrow> R\<^sup>*\<^sup>* y n" for x y
  proof (induction arbitrary: y rule: converse_rtranclp_induct)
    case base
    then show ?case using normal by blast
  next
    case (step x z)
    from diamond [OF \<open>R x y\<close> \<open>R x z\<close>] consider "y = z" | v where "R y v" "R z v" by blast
    then show ?case
      by cases (use step in \<open>auto intro: converse_rtranclp_into_rtranclp\<close>)
  qed
  from q n show ?thesis by (induction rule: rtranclp_induct) (auto intro: step)
qed

subsection \<open>Strings as bytes\<close>

lemma unat_of_char: "unat (of_char c :: 8 word) = of_char c"
  by (simp add: unat_of_nat flip: of_nat_of_char [where 'a = "8 word"])

lemma as_bytes_eq_iff [simp]: "as_bytes a = as_bytes b \<longleftrightarrow> a = b"
proof -
  have "inj (of_char :: char \<Rightarrow> 8 word)"
    by (rule injI) (metis unat_of_char of_char_eq_iff)
  then show ?thesis by (simp add: as_bytes_def inj_map_eq_map)
qed

lemma length_as_bytes [simp]: "length (as_bytes s) = length s"
  by (simp add: as_bytes_def)

subsection \<open>Decimal numbers and splitting at a character\<close>

lemma byte_of_digit: "n < 10 \<Longrightarrow> byte_of (char_of (48 + n)) = 48 + n"
  by (simp add: byte_of_def of_char_of)

lemma digits_value_append [simp]: "digits_value (ds @ [d]) = digits_value ds * 10 + (byte_of d - 48)"
  by (simp add: digits_value_def)

lemma digits_value_show_nat [simp]: "digits_value (show_nat n) = n"
proof (induction n rule: less_induct)
  case (less n)
  show ?case
  proof (cases "n < 10")
    case True
    then show ?thesis by (simp add: show_nat.simps digits_value_def byte_of_digit)
  next
    case False
    then have "show_nat n = show_nat (n div 10) @ [char_of (48 + n mod 10)]"
      by (simp add: show_nat.simps [of n])
    then show ?thesis using less False by (simp add: byte_of_digit)
  qed
qed

lemma show_nat_digits: "show_nat n \<noteq> [] \<and> list_all is_ascii_digit (show_nat n)"
proof (induction n rule: less_induct)
  case (less n)
  have digit: "is_ascii_digit (char_of (48 + m))" if "m < 10" for m :: nat
    using that by (simp add: is_ascii_digit_def byte_of_digit)
  show ?case
  proof (cases "n < 10")
    case True
    then show ?thesis by (simp add: show_nat.simps digit)
  next
    case False
    then have "show_nat n = show_nat (n div 10) @ [char_of (48 + n mod 10)]"
      by (simp add: show_nat.simps [of n])
    then show ?thesis using less False by (simp add: digit)
  qed
qed

lemma parse_unsigned_show_nat [simp]:
  assumes "n < 2 ^ w"
  shows "parse_unsigned w (show_nat n) = Some n"
proof -
  obtain d ds where s: "show_nat n = d # ds" using show_nat_digits [of n] by (cases "show_nat n") auto
  then have "is_ascii_digit d" using show_nat_digits [of n] by simp
  then have "d \<noteq> CHR ''+''" by (auto simp: is_ascii_digit_def byte_of_def)
  then show ?thesis using assms show_nat_digits [of n] digits_value_show_nat [of n]
    by (simp add: parse_unsigned_def s)
qed

lemma split_at_first_append [simp]: "c \<notin> set a \<Longrightarrow> split_at_first c (a @ c # b) = Some (a, b)"
  by (induction a) auto

lemma split_at_first_None: "c \<notin> set a \<Longrightarrow> split_at_first c a = None"
  by (induction a) auto

lemma split_at_first_subset: "split_at_first c r = Some (a, b) \<Longrightarrow> set b \<subseteq> set r"
  by (induction r arbitrary: a b) (auto split: if_splits)

lemma split_at_last_append [simp]: "c \<notin> set b \<Longrightarrow> split_at_last c (a @ c # b) = Some (a, b)"
  by (simp add: split_at_last_def)

lemma split_at_last_None: "c \<notin> set a \<Longrightarrow> split_at_last c a = None"
  by (simp add: split_at_last_def split_at_first_None)

lemma digit_chars: "d \<in> set (show_nat n) \<Longrightarrow> is_ascii_digit d"
  using show_nat_digits [of n] by (auto simp: list_all_iff)

lemma sorted_subseq:
  fixes xs ys :: "'a :: linorder list"
  assumes "subseq xs ys" "sorted ys"
  shows "sorted xs"
  using assms by (induction rule: list_emb.induct) (auto dest: list_emb_set)

text \<open>Replacing one summand.\<close>

lemma sum_list_map_update:
  fixes f :: "'a \<Rightarrow> 'b :: comm_monoid_add"
  shows "i < length xs \<Longrightarrow> sum_list (map f (xs[i := x])) + f (xs ! i) = sum_list (map f xs) + f x"
proof (induction xs arbitrary: i)
  case (Cons y ys)
  then show ?case by (cases i) (simp_all add: ac_simps)
qed simp

end
