(* ===== verification/Errors.thy ===== *)
theory Errors
  imports Babel_Prelude
begin

section \<open>The error type (src/error.rs)\<close>

text \<open>
  \<open>Error\<close> with its ten variants, its \<open>Display\<close> text, and \<open>Result\<close>. A variant that wraps an error
  of another crate (\<open>Io\<close>, \<open>Serialization\<close>, \<open>Yaml\<close>, \<open>Http\<close>) carries that error's own text. The
  operator \<open>?\<close> is \<open>and_then\<close>: it returns the first error and continues otherwise.
\<close>

datatype error =
    Io string
  | Serialization string
  | Yaml string
  | Http_Error string
  | Protocol string
  | Config_Error string
  | GraphQL_Error string
  | Unauthorized string
  | RateLimited
  | Unknown string

datatype 'a result = Err error | Ok 'a

fun error_to_string :: "error \<Rightarrow> string" where
  "error_to_string (Io m) = ''IO error: '' @ m"
| "error_to_string (Serialization m) = ''Serialization error: '' @ m"
| "error_to_string (Yaml m) = ''YAML error: '' @ m"
| "error_to_string (Http_Error m) = ''HTTP error: '' @ m"
| "error_to_string (Protocol m) = ''Protocol error: '' @ m"
| "error_to_string (Config_Error m) = ''Configuration error: '' @ m"
| "error_to_string (GraphQL_Error m) = ''GraphQL error: '' @ m"
| "error_to_string (Unauthorized m) = ''Unauthorized: '' @ m"
| "error_to_string RateLimited = ''Rate limited''"
| "error_to_string (Unknown m) = ''Unknown error: '' @ m"

fun and_then :: "'a result \<Rightarrow> ('a \<Rightarrow> 'b result) \<Rightarrow> 'b result" where
  "and_then (Err e) f = Err e"
| "and_then (Ok x) f = f x"

fun is_ok :: "'a result \<Rightarrow> bool" where
  "is_ok (Ok x) = True"
| "is_ok (Err e) = False"

fun map_err :: "(error \<Rightarrow> error) \<Rightarrow> 'a result \<Rightarrow> 'a result" where
  "map_err g (Err e) = Err (g e)"
| "map_err g (Ok x) = Ok x"

lemma and_then_Ok_iff [simp]:
  "and_then r f = Ok y \<longleftrightarrow> (\<exists>x. r = Ok x \<and> f x = Ok y)"
  by (cases r) auto

lemma is_ok_iff: "is_ok r \<longleftrightarrow> (\<exists>x. r = Ok x)"
  by (cases r) auto

lemma result_unit_Ok: "(r :: unit result) = Ok () \<longleftrightarrow> is_ok r"
  by (cases r) auto

lemma is_ok_and_then [simp]: "is_ok (and_then r f) \<longleftrightarrow> (\<exists>x. r = Ok x \<and> is_ok (f x))"
  by (cases r) auto

lemma is_ok_and_then_unit [simp]:
  "is_ok (and_then (r :: unit result) f) \<longleftrightarrow> is_ok r \<and> is_ok (f ())"
  by (cases r) auto

text \<open>A loop that leaves at the first error, as \<open>for x in xs { f(x)?; }\<close>.\<close>

fun for_each_ok :: "('a \<Rightarrow> unit result) \<Rightarrow> 'a list \<Rightarrow> unit result" where
  "for_each_ok f [] = Ok ()"
| "for_each_ok f (x # xs) = and_then (f x) (\<lambda>_. for_each_ok f xs)"

lemma is_ok_for_each [simp]: "is_ok (for_each_ok f xs) \<longleftrightarrow> (\<forall>x \<in> set xs. is_ok (f x))"
  by (induction xs) (auto simp del: is_ok_and_then)

end
