(* ===== verification/Config.thy ===== *)
theory Config
  imports Errors
begin

section \<open>Configuration (src/config)\<close>

text \<open>
  The configuration types of \<open>src/config/mod.rs\<close>, \<open>GatewayConfig::validate\<close> with its helpers, the
  environment overrides of \<open>src/config/env.rs\<close> and the loading sequence of \<open>GatewayConfig::load\<close>.
  Reading the file and parsing YAML belong to tokio and serde\_yaml: they are parameters of
  \<open>load_from_file\<close>. A \<open>serde_json::Value\<close> is its public enumeration.
\<close>

subsection \<open>Types\<close>

datatype json =
    JNull
  | JBool bool
  | JNumber int
  | JFloat string
  | JString string
  | JArray "json list"
  | JObject "(string \<times> json) list"

text \<open>The accessors \<open>get\<close>, \<open>as_array\<close>, \<open>as_str\<close> and \<open>as_u64\<close>; \<open>JFloat\<close> is a number that is not an integer.\<close>

fun json_get :: "json \<Rightarrow> string \<Rightarrow> json option" where
  "json_get (JObject kvs) k = map_of kvs k"
| "json_get _ k = None"

fun json_as_array :: "json \<Rightarrow> json list option" where
  "json_as_array (JArray xs) = Some xs"
| "json_as_array _ = None"

fun json_as_str :: "json \<Rightarrow> string option" where
  "json_as_str (JString s) = Some s"
| "json_as_str _ = None"

fun json_as_u64 :: "json \<Rightarrow> u64 option" where
  "json_as_u64 (JNumber i) = (if 0 \<le> i \<and> i < 2 ^ 64 then Some (word_of_int i) else None)"
| "json_as_u64 _ = None"

record protocol_config =
  pc_name :: string
  pc_enabled :: bool
  pc_settings :: json

record http_transport_config =
  ht_url :: string
  ht_timeout_secs :: u64
  ht_strip_prefix :: bool

datatype zmq_pattern = ReqRep | Push | PubSub

record zmq_transport_config =
  zt_address :: string
  zt_pattern :: zmq_pattern
  zt_timeout_secs :: u64
  zt_topic :: "string option"

record graphql_transport_config =
  gq_url :: string
  gq_timeout_secs :: u64

record grpc_transport_config =
  gr_url :: string
  gr_timeout_secs :: u64

record websocket_transport_config =
  wt_url :: string
  wt_timeout_secs :: u64

record mqtt_transport_config =
  mt_broker_url :: string
  mt_topic :: string
  mt_qos :: u8
  mt_retain :: bool
  mt_client_id :: "string option"
  mt_timeout_secs :: u64

record amqp_transport_config =
  at_broker_url :: string
  at_exchange :: string
  at_routing_key :: string
  at_mandatory :: bool
  at_persistent :: bool
  at_content_type :: "string option"
  at_timeout_secs :: u64

datatype transport_config =
    Http http_transport_config
  | Zmq zmq_transport_config
  | GraphQL graphql_transport_config
  | Grpc grpc_transport_config
  | WebSocket websocket_transport_config
  | Mqtt mqtt_transport_config
  | Amqp amqp_transport_config

record route_config =
  rc_path :: string
  rc_methods :: "string list"
  rc_transport :: transport_config

record zmq_pull_listener_config =
  zl_bind :: string
  zl_forward_to :: string

record mqtt_sub_listener_config =
  ml_broker_url :: string
  ml_topics :: "string list"
  ml_qos :: u8
  ml_client_id :: "string option"
  ml_forward_to :: string

record amqp_consume_listener_config =
  al_broker_url :: string
  al_queue :: string
  al_consumer_tag :: "string option"
  al_auto_ack :: bool
  al_forward_to :: string

datatype listener_config =
    ZmqPull zmq_pull_listener_config
  | MqttSub mqtt_sub_listener_config
  | AmqpConsume amqp_consume_listener_config

record auth_config =
  au_enabled :: bool
  au_api_keys :: "string list"

record rate_limit_config =
  rl_enabled :: bool
  rl_requests_per_window :: u32
  rl_window_secs :: u64

record logging_config =
  lg_enabled :: bool

record middleware_section_config =
  ms_auth :: auth_config
  ms_rate_limit :: rate_limit_config
  ms_logging :: logging_config

record gateway_config =
  gc_port :: u16
  gc_host :: string
  gc_protocols :: "protocol_config list"
  gc_routes :: "route_config list"
  gc_listeners :: "listener_config list"
  gc_middleware :: middleware_section_config

definition default_timeout_secs :: u64 where
  "default_timeout_secs = 30"

definition default_requests_per_window :: u32 where
  "default_requests_per_window = 100"

definition default_window_secs :: u64 where
  "default_window_secs = 60"

definition default_rate_limit_config :: rate_limit_config where
  "default_rate_limit_config =
     \<lparr>rl_enabled = False, rl_requests_per_window = default_requests_per_window,
      rl_window_secs = default_window_secs\<rparr>"

definition default_middleware :: middleware_section_config where
  "default_middleware =
     \<lparr>ms_auth = \<lparr>au_enabled = False, au_api_keys = []\<rparr>,
      ms_rate_limit = default_rate_limit_config,
      ms_logging = \<lparr>lg_enabled = False\<rparr>\<rparr>"

subsection \<open>Validation helpers\<close>

fun transport_timeout_secs :: "transport_config \<Rightarrow> u64" where
  "transport_timeout_secs (Http cfg) = ht_timeout_secs cfg"
| "transport_timeout_secs (Zmq cfg) = zt_timeout_secs cfg"
| "transport_timeout_secs (GraphQL cfg) = gq_timeout_secs cfg"
| "transport_timeout_secs (Grpc cfg) = gr_timeout_secs cfg"
| "transport_timeout_secs (WebSocket cfg) = wt_timeout_secs cfg"
| "transport_timeout_secs (Mqtt cfg) = mt_timeout_secs cfg"
| "transport_timeout_secs (Amqp cfg) = at_timeout_secs cfg"

definition validate_http_url :: "string \<Rightarrow> string \<Rightarrow> unit result" where
  "validate_http_url url ctx =
     (if trim_is_empty url then Err (Config_Error (ctx @ '': URL must not be empty''))
      else if \<not> starts_with url ''http://'' \<and> \<not> starts_with url ''https://'' then
        Err (Config_Error (ctx @ '': URL '' @ [CHR 0x27] @ url @ [CHR 0x27] @ '' must start with http:// or https://''))
      else Ok ())"

definition validate_ws_url :: "string \<Rightarrow> string \<Rightarrow> unit result" where
  "validate_ws_url url ctx =
     (if trim_is_empty url then Err (Config_Error (ctx @ '': URL must not be empty''))
      else let ok = starts_with url ''ws://'' \<or> starts_with url ''wss://''
                    \<or> starts_with url ''http://'' \<or> starts_with url ''https://''
      in if \<not> ok then
        Err (Config_Error (ctx @ '': WebSocket URL '' @ [CHR 0x27] @ url @ [CHR 0x27]
               @ '' must start with ws://, wss://, http://, or https://''))
      else Ok ())"

definition validate_mqtt_broker_url :: "string \<Rightarrow> string \<Rightarrow> unit result" where
  "validate_mqtt_broker_url url ctx =
     (if trim_is_empty url then Err (Config_Error (ctx @ '': broker URL must not be empty''))
      else let ok = starts_with url ''mqtt://'' \<or> starts_with url ''mqtts://''
                    \<or> starts_with url ''tcp://'' \<or> starts_with url ''ssl://''
      in if \<not> ok then
        Err (Config_Error (ctx @ '': MQTT broker URL '' @ [CHR 0x27] @ url @ [CHR 0x27]
               @ '' must start with mqtt://, mqtts://, tcp://, or ssl://''))
      else Ok ())"

definition validate_mqtt_topic :: "string \<Rightarrow> string \<Rightarrow> unit result" where
  "validate_mqtt_topic topic ctx =
     (if trim_is_empty topic then Err (Config_Error (ctx @ '': MQTT topic must not be empty''))
      else Ok ())"

definition validate_mqtt_qos :: "u8 \<Rightarrow> string \<Rightarrow> unit result" where
  "validate_mqtt_qos qos ctx =
     (if 2 < qos then Err (Config_Error (ctx @ '': MQTT QoS must be 0, 1, or 2'')) else Ok ())"

definition validate_amqp_broker_url :: "string \<Rightarrow> string \<Rightarrow> unit result" where
  "validate_amqp_broker_url url ctx =
     (if trim_is_empty url then Err (Config_Error (ctx @ '': broker URL must not be empty''))
      else let ok = starts_with url ''amqp://'' \<or> starts_with url ''amqps://''
      in if \<not> ok then
        Err (Config_Error (ctx @ '': AMQP broker URL '' @ [CHR 0x27] @ url @ [CHR 0x27]
               @ '' must start with amqp:// or amqps://''))
      else Ok ())"

subsection \<open>GatewayConfig::validate\<close>

text \<open>The body of the loop over the routes: path, timeout, then the checks of the transport.\<close>

fun validate_transport :: "string \<Rightarrow> transport_config \<Rightarrow> unit result" where
  "validate_transport path (Http cfg) = validate_http_url (ht_url cfg) path"
| "validate_transport path (GraphQL cfg) = validate_http_url (gq_url cfg) path"
| "validate_transport path (Grpc cfg) = validate_http_url (gr_url cfg) path"
| "validate_transport path (WebSocket cfg) = validate_ws_url (wt_url cfg) path"
| "validate_transport path (Mqtt cfg) =
     and_then (validate_mqtt_broker_url (mt_broker_url cfg) path) (\<lambda>_.
     and_then (validate_mqtt_topic (mt_topic cfg) path) (\<lambda>_.
     validate_mqtt_qos (mt_qos cfg) path))"
| "validate_transport path (Amqp cfg) =
     and_then (validate_amqp_broker_url (at_broker_url cfg) path) (\<lambda>_.
     if trim_is_empty (at_routing_key cfg)
     then Err (Config_Error (path @ '': AMQP routing_key must not be empty''))
     else Ok ())"
| "validate_transport path (Zmq cfg) =
     (if trim_is_empty (zt_address cfg)
      then Err (Config_Error (''ZMQ route '' @ [CHR 0x27] @ path @ [CHR 0x27]
                  @ '': address must not be empty''))
      else Ok ())"

definition validate_route :: "route_config \<Rightarrow> unit result" where
  "validate_route route =
     (if rc_path route = [] then Err (Config_Error ''route path must not be empty'')
      else if \<not> starts_with (rc_path route) ''/'' then
        Err (Config_Error (''route path '' @ [CHR 0x27] @ rc_path route @ [CHR 0x27]
               @ '' must start with '' @ [CHR 0x27] @ ''/'' @ [CHR 0x27]))
      else if transport_timeout_secs (rc_transport route) = 0 then
        Err (Config_Error (''route '' @ [CHR 0x27] @ rc_path route @ [CHR 0x27]
               @ '': timeout_secs must be at least 1 (0 times out immediately)''))
      else validate_transport (rc_path route) (rc_transport route))"

fun validate_listener :: "listener_config \<Rightarrow> unit result" where
  "validate_listener (ZmqPull cfg) =
     (if trim_is_empty (zl_bind cfg)
      then Err (Config_Error ''ZMQ pull listener: bind address must not be empty'')
      else validate_http_url (zl_forward_to cfg) ''zmq_pull listener forward_to'')"
| "validate_listener (MqttSub cfg) =
     and_then (validate_mqtt_broker_url (ml_broker_url cfg) ''mqtt_sub listener broker_url'') (\<lambda>_.
     if ml_topics cfg = []
     then Err (Config_Error ''mqtt_sub listener: topics must not be empty'')
     else and_then (for_each_ok (\<lambda>t. validate_mqtt_topic t ''mqtt_sub listener topic'') (ml_topics cfg)) (\<lambda>_.
       and_then (validate_mqtt_qos (ml_qos cfg) ''mqtt_sub listener qos'') (\<lambda>_.
       validate_http_url (ml_forward_to cfg) ''mqtt_sub listener forward_to'')))"
| "validate_listener (AmqpConsume cfg) =
     and_then (validate_amqp_broker_url (al_broker_url cfg) ''amqp_consume listener broker_url'') (\<lambda>_.
     if trim_is_empty (al_queue cfg)
     then Err (Config_Error ''amqp_consume listener: queue must not be empty'')
     else validate_http_url (al_forward_to cfg) ''amqp_consume listener forward_to'')"

definition validate :: "gateway_config \<Rightarrow> unit result" where
  "validate c =
     (let rl = ms_rate_limit (gc_middleware c) in
      if trim_is_empty (gc_host c) then Err (Config_Error ''host must not be empty'')
      else if gc_port c = 0 then Err (Config_Error ''port must be between 1 and 65535'')
      else if rl_enabled rl \<and> rl_requests_per_window rl = 0 then
        Err (Config_Error ''rate_limit.requests_per_window must be at least 1 when rate limiting is enabled'')
      else if rl_enabled rl \<and> rl_window_secs rl = 0 then
        Err (Config_Error ''rate_limit.window_secs must be at least 1 when rate limiting is enabled'')
      else and_then (for_each_ok validate_route (gc_routes c)) (\<lambda>_.
           for_each_ok validate_listener (gc_listeners c)))"

subsection \<open>Environment overrides and loading\<close>

text \<open>
  The process environment is a lookup function. A port that does not parse is ignored with a
  warning; a host replaces the configured one whatever it holds.
\<close>

type_synonym environment = "string \<Rightarrow> string option"

definition config_file_path :: "environment \<Rightarrow> string" where
  "config_file_path env =
     (case env ''IRON_BABEL_CONFIG'' of Some p \<Rightarrow> p | None \<Rightarrow> ''config/gateway.yaml'')"

definition apply_env_overrides :: "environment \<Rightarrow> gateway_config \<Rightarrow> gateway_config" where
  "apply_env_overrides env c =
     (let c1 = (case env ''IRON_BABEL_PORT'' of
                  Some val \<Rightarrow> (case parse_unsigned 16 val of
                                 Some port \<Rightarrow> c\<lparr>gc_port := word_of_nat port\<rparr>
                               | None \<Rightarrow> c)
                | None \<Rightarrow> c)
      in case env ''IRON_BABEL_HOST'' of
           Some val \<Rightarrow> c1\<lparr>gc_host := val\<rparr>
         | None \<Rightarrow> c1)"

text \<open>
  \<open>read_to_string\<close> is tokio's file read and \<open>from_yaml\<close> serde\_yaml's deserialiser; either fails
  with a text.
\<close>

definition load_from_file ::
  "(string \<Rightarrow> string + string) \<Rightarrow> (string \<Rightarrow> string + gateway_config) \<Rightarrow> string
     \<Rightarrow> gateway_config result" where
  "load_from_file read_to_string from_yaml path =
     (case read_to_string path of
        Inl e \<Rightarrow> Err (Config_Error (''Could not read config file '' @ [CHR 0x27] @ path @ [CHR 0x27] @ '': '' @ e))
      | Inr contents \<Rightarrow>
          (case from_yaml contents of
             Inl e \<Rightarrow> Err (Config_Error (''Invalid YAML in config file '' @ [CHR 0x27] @ path @ [CHR 0x27] @ '': '' @ e))
           | Inr config \<Rightarrow> and_then (validate config) (\<lambda>_. Ok config)))"

definition load ::
  "(string \<Rightarrow> string + string) \<Rightarrow> (string \<Rightarrow> string + gateway_config) \<Rightarrow> environment
     \<Rightarrow> gateway_config result" where
  "load read_to_string from_yaml env =
     and_then (load_from_file read_to_string from_yaml (config_file_path env)) (\<lambda>config.
       let config' = apply_env_overrides env config
       in and_then (validate config') (\<lambda>_. Ok config'))"

subsection \<open>What validation establishes\<close>

text \<open>The declarative reading of a usable configuration, item by item.\<close>

definition url_with :: "string list \<Rightarrow> string \<Rightarrow> bool" where
  "url_with schemes url \<longleftrightarrow> \<not> trim_is_empty url \<and> (\<exists>p \<in> set schemes. starts_with url p)"

abbreviation http_url :: "string \<Rightarrow> bool" where
  "http_url \<equiv> url_with [''http://'', ''https://'']"

abbreviation ws_url :: "string \<Rightarrow> bool" where
  "ws_url \<equiv> url_with [''ws://'', ''wss://'', ''http://'', ''https://'']"

abbreviation mqtt_url :: "string \<Rightarrow> bool" where
  "mqtt_url \<equiv> url_with [''mqtt://'', ''mqtts://'', ''tcp://'', ''ssl://'']"

abbreviation amqp_url :: "string \<Rightarrow> bool" where
  "amqp_url \<equiv> url_with [''amqp://'', ''amqps://'']"

fun well_formed_transport :: "transport_config \<Rightarrow> bool" where
  "well_formed_transport (Http cfg) = http_url (ht_url cfg)"
| "well_formed_transport (GraphQL cfg) = http_url (gq_url cfg)"
| "well_formed_transport (Grpc cfg) = http_url (gr_url cfg)"
| "well_formed_transport (WebSocket cfg) = ws_url (wt_url cfg)"
| "well_formed_transport (Mqtt cfg) =
     (mqtt_url (mt_broker_url cfg) \<and> \<not> trim_is_empty (mt_topic cfg) \<and> mt_qos cfg \<le> 2)"
| "well_formed_transport (Amqp cfg) = (amqp_url (at_broker_url cfg) \<and> \<not> trim_is_empty (at_routing_key cfg))"
| "well_formed_transport (Zmq cfg) = (\<not> trim_is_empty (zt_address cfg))"

definition well_formed_route :: "route_config \<Rightarrow> bool" where
  "well_formed_route r \<longleftrightarrow> starts_with (rc_path r) ''/'' \<and> 0 < transport_timeout_secs (rc_transport r)
     \<and> well_formed_transport (rc_transport r)"

fun well_formed_listener :: "listener_config \<Rightarrow> bool" where
  "well_formed_listener (ZmqPull cfg) = (\<not> trim_is_empty (zl_bind cfg) \<and> http_url (zl_forward_to cfg))"
| "well_formed_listener (MqttSub cfg) =
     (mqtt_url (ml_broker_url cfg) \<and> ml_topics cfg \<noteq> [] \<and> list_all (\<lambda>t. \<not> trim_is_empty t) (ml_topics cfg)
      \<and> ml_qos cfg \<le> 2 \<and> http_url (ml_forward_to cfg))"
| "well_formed_listener (AmqpConsume cfg) =
     (amqp_url (al_broker_url cfg) \<and> \<not> trim_is_empty (al_queue cfg) \<and> http_url (al_forward_to cfg))"

definition well_formed :: "gateway_config \<Rightarrow> bool" where
  "well_formed c \<longleftrightarrow> \<not> trim_is_empty (gc_host c) \<and> 0 < gc_port c
     \<and> (rl_enabled (ms_rate_limit (gc_middleware c)) \<longrightarrow>
          0 < rl_requests_per_window (ms_rate_limit (gc_middleware c))
          \<and> 0 < rl_window_secs (ms_rate_limit (gc_middleware c)))
     \<and> list_all well_formed_route (gc_routes c) \<and> list_all well_formed_listener (gc_listeners c)"

lemma is_ok_helpers [simp]:
  "is_ok (validate_http_url url ctx) \<longleftrightarrow> http_url url"
  "is_ok (validate_ws_url url ctx) \<longleftrightarrow> ws_url url"
  "is_ok (validate_mqtt_broker_url url ctx) \<longleftrightarrow> mqtt_url url"
  "is_ok (validate_amqp_broker_url url ctx) \<longleftrightarrow> amqp_url url"
  "is_ok (validate_mqtt_topic topic ctx) \<longleftrightarrow> \<not> trim_is_empty topic"
  "is_ok (validate_mqtt_qos qos ctx) \<longleftrightarrow> qos \<le> 2"
  by (auto simp: validate_http_url_def validate_ws_url_def validate_mqtt_broker_url_def
      validate_amqp_broker_url_def validate_mqtt_topic_def validate_mqtt_qos_def url_with_def Let_def)

lemma is_ok_validate_transport [simp]: "is_ok (validate_transport path t) \<longleftrightarrow> well_formed_transport t"
  by (cases t) (auto simp: result_unit_Ok)

lemma word_pos_iff: "0 < (w :: 'a :: len word) \<longleftrightarrow> w \<noteq> 0"
  by (auto simp: word_gt_0)

lemma is_ok_validate_route [simp]: "is_ok (validate_route r) \<longleftrightarrow> well_formed_route r"
  by (auto simp: validate_route_def well_formed_route_def word_pos_iff)

lemma is_ok_validate_listener [simp]: "is_ok (validate_listener l) \<longleftrightarrow> well_formed_listener l"
  by (cases l) (auto simp: list_all_iff result_unit_Ok)

lemma validate_iff: "validate c = Ok () \<longleftrightarrow> well_formed c"
  by (auto simp: result_unit_Ok validate_def well_formed_def Let_def word_pos_iff list_all_iff)

text \<open>
  C25: \<open>validate\<close> accepts a configuration exactly when it is well formed: a host and a port, a
  rate limit that lets something through when it is enabled, routes whose path starts with a slash,
  with a timeout and with an address of the right scheme for the transport, MQTT topics and quality
  of service in range, listeners with a source and a target.
\<close>

theorem validate_Ok_iff: "validate c = Ok () \<longleftrightarrow> well_formed c"
  by (rule validate_iff)

lemma validate_error_kind: "validate c = Err e \<Longrightarrow> \<exists>m. e = Config_Error m"
proof -
  have helper: "\<And>url ctx e. validate_http_url url ctx = Err e \<Longrightarrow> \<exists>m. e = Config_Error m"
    "\<And>url ctx e. validate_ws_url url ctx = Err e \<Longrightarrow> \<exists>m. e = Config_Error m"
    "\<And>url ctx e. validate_mqtt_broker_url url ctx = Err e \<Longrightarrow> \<exists>m. e = Config_Error m"
    "\<And>url ctx e. validate_amqp_broker_url url ctx = Err e \<Longrightarrow> \<exists>m. e = Config_Error m"
    "\<And>t ctx e. validate_mqtt_topic t ctx = Err e \<Longrightarrow> \<exists>m. e = Config_Error m"
    "\<And>q ctx e. validate_mqtt_qos q ctx = Err e \<Longrightarrow> \<exists>m. e = Config_Error m"
    by (auto simp: validate_http_url_def validate_ws_url_def validate_mqtt_broker_url_def
        validate_amqp_broker_url_def validate_mqtt_topic_def validate_mqtt_qos_def Let_def
        split: if_splits)
  have seq: "and_then r f = Err e \<longleftrightarrow> r = Err e \<or> (\<exists>x. r = Ok x \<and> f x = Err e)"
    for r :: "unit result" and f :: "unit \<Rightarrow> unit result" and e by (cases r) auto
  have transport: "\<exists>m. e = Config_Error m" if "validate_transport p t = Err e" for p t e
    using that by (cases t) (auto simp: seq split: if_splits dest: helper)
  have loop: "\<exists>m. e = Config_Error m"
    if "for_each_ok f xs = Err e" "\<And>x e. f x = Err e \<Longrightarrow> \<exists>m. e = Config_Error m" for f xs e
    using that by (induction xs) (auto simp: seq)
  have route: "\<exists>m. e = Config_Error m" if "validate_route r = Err e" for r e
    using that by (auto simp: validate_route_def split: if_splits dest: transport)
  have listener: "\<exists>m. e = Config_Error m" if "validate_listener l = Err e" for l e
    using that by (cases l) (auto simp: seq split: if_splits dest: helper loop)
  assume "validate c = Err e"
  then show ?thesis
    by (auto simp: validate_def Let_def seq split: if_splits dest: loop route listener)
qed

text \<open>
  What \<open>load\<close> returns: the parsed file with the environment's port and host in place of its
  own, and both the file and the result are well formed. So an override cannot bring in an empty
  host or port 0, and an invalid file is refused even if the environment would repair it.
\<close>

lemma load_Ok_iff:
  "load read_to_string from_yaml env = Ok c \<longleftrightarrow>
     (\<exists>contents raw. read_to_string (config_file_path env) = Inr contents \<and> from_yaml contents = Inr raw
        \<and> well_formed raw \<and> c = apply_env_overrides env raw \<and> well_formed c)"
proof -
  have "load_from_file read_to_string from_yaml path = Ok raw \<longleftrightarrow>
      (\<exists>contents. read_to_string path = Inr contents \<and> from_yaml contents = Inr raw \<and> well_formed raw)"
    for path raw
    by (auto simp: load_from_file_def validate_iff split: sum.splits)
  then show ?thesis by (auto simp: load_def Let_def validate_iff)
qed

end
