(* ===== verification/Router.thy ===== *)
theory Router
  imports Config
begin

section \<open>Request routing (src/core/router.rs)\<close>

text \<open>
  \<open>Router::new\<close> sorts the configured routes by path length, longest first, with Rust's stable
  sort; \<open>Router::route\<close> scans them for the first one whose prefix and methods match. The
  reference definition \<open>first_longest\<close> needs no sorting: it keeps the earliest of the longest
  matching entries. \<open>route_eq_first_longest\<close> shows that the two agree.
\<close>

record router =
  rt_routes :: "route_config list"

definition router_new :: "route_config list \<Rightarrow> router" where
  "router_new routes = \<lparr>rt_routes = sort_key (\<lambda>r. - int (length (rc_path r))) routes\<rparr>"

definition method_ok :: "string \<Rightarrow> bool" where
  "method_ok m \<longleftrightarrow> m \<noteq> [] \<and> list_all (\<lambda>c. is_ascii_alphanumeric c \<or> c = CHR ''-'') m"

definition prefix_matches :: "string \<Rightarrow> route_config \<Rightarrow> bool" where
  "prefix_matches path r \<longleftrightarrow>
     starts_with path (rc_path r)
     \<and> (length path = length (rc_path r)
        \<or> starts_with (drop (length (rc_path r)) path) ''/''
        \<or> ends_with (rc_path r) ''/'')"

definition route_matches :: "string \<Rightarrow> string \<Rightarrow> route_config \<Rightarrow> bool" where
  "route_matches m path r =
     (if \<not> prefix_matches path r then False
      else if rc_methods r = [] then True
      else list_ex (\<lambda>x. to_ascii_uppercase x = to_ascii_uppercase m) (rc_methods r))"

definition route :: "router \<Rightarrow> string \<Rightarrow> string \<Rightarrow> route_config option" where
  "route rt m path = (if \<not> method_ok m then None else find (route_matches m path) (rt_routes rt))"

text \<open>A route to an HTTP backend, for the examples.\<close>

definition http_route :: "string \<Rightarrow> string list \<Rightarrow> route_config" where
  "http_route path methods =
     \<lparr>rc_path = path, rc_methods = methods,
      rc_transport = Http \<lparr>ht_url = ''http://127.0.0.1:9000'', ht_timeout_secs = 30,
                           ht_strip_prefix = False\<rparr>\<rparr>"

subsection \<open>Sorting and scanning agree with the reference scan\<close>

fun first_longest :: "('a \<Rightarrow> int) \<Rightarrow> ('a \<Rightarrow> bool) \<Rightarrow> 'a list \<Rightarrow> 'a option" where
  "first_longest f P [] = None"
| "first_longest f P (x # xs) =
     (if P x then
        (case first_longest f P xs of
           None \<Rightarrow> Some x
         | Some y \<Rightarrow> if f x \<le> f y then Some x else Some y)
      else first_longest f P xs)"

lemma find_insort_key:
  assumes "sorted (map f ys)"
  shows "find P (insort_key f x ys) =
     (if P x then
        (case find P ys of None \<Rightarrow> Some x | Some y \<Rightarrow> if f x \<le> f y then Some x else Some y)
      else find P ys)"
  using assms
proof (induction ys)
  case Nil
  then show ?case by simp
next
  case (Cons y ys)
  have le: "z \<in> set ys \<Longrightarrow> f y \<le> f z" for z
    using Cons.prems by auto
  have "find P ys = Some z \<Longrightarrow> f y \<le> f z" for z
    using le by (auto simp: find_Some_iff)
  with Cons show ?case
    by (auto split: option.splits if_splits)
qed

lemma find_sort_key: "find P (sort_key f xs) = first_longest f P xs"
  by (induction xs) (auto simp: find_insort_key)

lemma first_longest_None_iff: "first_longest f P xs = None \<longleftrightarrow> (\<forall>x \<in> set xs. \<not> P x)"
  by (induction xs) (auto split: option.splits if_splits)

lemma first_longest_sound:
  "first_longest f P xs = Some r \<Longrightarrow> r \<in> set xs \<and> P r \<and> (\<forall>q \<in> set xs. P q \<longrightarrow> f r \<le> f q)"
proof (induction xs arbitrary: r)
  case Nil
  then show ?case by simp
next
  case (Cons x xs)
  show ?case
  proof (cases "first_longest f P xs")
    case None
    then have "\<forall>q \<in> set xs. \<not> P q" by (simp add: first_longest_None_iff)
    with Cons.prems None show ?thesis by (auto split: if_splits)
  next
    case (Some y)
    from Cons.IH [OF Some] have "y \<in> set xs" "P y" "\<forall>q \<in> set xs. P q \<longrightarrow> f y \<le> f q" by auto
    with Cons.prems Some show ?thesis by (auto split: if_splits)
  qed
qed

lemma first_longest_first:
  assumes "P r" "\<forall>q \<in> set pre. P q \<longrightarrow> f r < f q" "\<forall>q \<in> set post. P q \<longrightarrow> f r \<le> f q"
  shows "first_longest f P (pre @ r # post) = Some r"
  using assms
proof (induction pre)
  case Nil
  then show ?case
    by (cases "first_longest f P post") (auto dest: first_longest_sound)
next
  case (Cons q pre)
  then show ?case by auto
qed

lemma first_longest_splits:
  assumes "first_longest f P xs = Some r"
  shows "\<exists>pre post. xs = pre @ r # post \<and> (\<forall>q \<in> set pre. P q \<longrightarrow> f r < f q)"
  using assms
proof (induction xs arbitrary: r)
  case Nil
  then show ?case by simp
next
  case (Cons x xs)
  show ?case
  proof (cases "r = x \<and> P x")
    case True
    then show ?thesis by (intro exI [of _ "[]"] exI [of _ xs]) simp
  next
    case False
    with Cons.prems have r: "first_longest f P xs = Some r" and x: "P x \<longrightarrow> f r < f x"
      by (auto split: option.splits if_splits)
    from Cons.IH [OF r] obtain pre post where
      "xs = pre @ r # post" "\<forall>q \<in> set pre. P q \<longrightarrow> f r < f q" by blast
    with x show ?thesis by (intro exI [of _ "x # pre"] exI [of _ post]) simp
  qed
qed

lemma route_eq_first_longest:
  "route (router_new rs) m path =
     (if method_ok m
      then first_longest (\<lambda>r. - int (length (rc_path r))) (route_matches m path) rs else None)"
  by (simp add: route_def router_new_def find_sort_key)

text \<open>
  C14: \<open>Router::route\<close> on \<open>Router::new(routes)\<close> returns a route exactly when the method is well
  formed and that route matches, and then it is the one with the longest path among all the
  matching routes, the earliest in configuration order where lengths are equal.
\<close>

theorem route_longest_prefix:
  "route (router_new rs) m path = Some r \<longleftrightarrow>
     method_ok m \<and> route_matches m path r \<and>
     (\<exists>pre post. rs = pre @ r # post
        \<and> (\<forall>q \<in> set pre. route_matches m path q \<longrightarrow> length (rc_path q) < length (rc_path r))
        \<and> (\<forall>q \<in> set post. route_matches m path q \<longrightarrow> length (rc_path q) \<le> length (rc_path r)))"
    (is "?L \<longleftrightarrow> ?R")
proof
  assume ?L
  then have m: "method_ok m" and
    f: "first_longest (\<lambda>r. - int (length (rc_path r))) (route_matches m path) rs = Some r"
    by (auto simp: route_eq_first_longest split: if_splits)
  from first_longest_splits [OF f] obtain pre post where
    "rs = pre @ r # post" "\<forall>q \<in> set pre. route_matches m path q \<longrightarrow> length (rc_path q) < length (rc_path r)"
    by auto
  with first_longest_sound [OF f] m show ?R by auto
next
  assume ?R
  then show ?L
    by (auto simp: route_eq_first_longest intro!: first_longest_first)
qed

lemmas route_eval =
  route_matches_def prefix_matches_def method_ok_def http_route_def is_ascii_alphanumeric_def
  is_ascii_digit_def byte_of_def to_ascii_uppercase_def ascii_upper_def suffix_def

theorem route_longest_prefix_witness:
  "route (router_new [http_route ''/api'' [''GET''], http_route ''/api/v1'' [''GET'']])
     ''GET'' ''/api/v1/users'' = Some (http_route ''/api/v1'' [''GET''])"
  unfolding route_longest_prefix
  by (intro conjI exI [of _ "[http_route ''/api'' [''GET'']]"] exI [of _ "[]"])
    (simp_all add: route_eval)

text \<open>
  A path on which no route is found is one whose method is malformed or that no configured
  route matches: nothing that matches is missed.
\<close>

lemma route_None_iff:
  "route (router_new rs) m path = None \<longleftrightarrow>
     \<not> method_ok m \<or> (\<forall>r \<in> set rs. \<not> route_matches m path r)"
  by (simp add: route_eq_first_longest first_longest_None_iff)

text \<open>
  A matching prefix ends at a segment boundary. Cutting both at the slashes, the segments of
  the route path (without the empty one a trailing slash leaves) start the segments of the request
  path, so a route for \<open>/api\<close> never serves \<open>/apiv2\<close>.
\<close>

lemma prefix_matches_segments:
  assumes "prefix_matches path r"
  shows "prefix (if ends_with (rc_path r) ''/'' then butlast (split_on CHR ''/'' (rc_path r))
                 else split_on CHR ''/'' (rc_path r))
           (split_on CHR ''/'' path)"
proof -
  from assms obtain rest where path: "path = rc_path r @ rest"
    by (auto simp: prefix_matches_def prefix_def)
  show ?thesis
  proof (cases "ends_with (rc_path r) ''/''")
    case True
    then show ?thesis by (simp add: path split_on_append)
  next
    case False
    with assms consider "rest = []" | rest' where "rest = CHR ''/'' # rest'"
      by (auto simp: prefix_matches_def path prefix_def)
    then show ?thesis using False
      by cases (simp_all add: path split_on_append_sep)
  qed
qed

end
