(* ===== verification/Http_Protocol.thy ===== *)
theory Http_Protocol
  imports Errors
begin

section \<open>HTTP helpers (src/protocols/http.rs)\<close>

text \<open>
  The size guard of \<open>HttpProtocol\<close>, the traversal check with its decoding loop, the two guards on
  what may be appended to an upstream URL, and the removal of hop-by-hop headers. The main result
  relates the decoding loop, which replaces all the escapes of one kind at a time, to single
  decoding steps taken anywhere and in any order.
\<close>

definition MAX_BODY_SIZE :: nat where
  "MAX_BODY_SIZE = 10 * 1024 * 1024"

definition http_encode :: "bytes \<Rightarrow> bytes result" where
  "http_encode data = (if MAX_BODY_SIZE < length data then Err (Protocol ''body too large'') else Ok data)"

definition http_decode :: "bytes \<Rightarrow> bytes result" where
  "http_decode data = (if MAX_BODY_SIZE < length data then Err (Protocol ''body too large'') else Ok data)"

text \<open>One pass of the loop, then the loop up to the point where a pass changes nothing.\<close>

definition decode_pass :: "string \<Rightarrow> string" where
  "decode_pass p = str_replace ''%2f'' ''/'' (str_replace ''%2e'' ''.'' (str_replace ''%25'' ''%'' p))"

lemma escape_shrinking:
  "shrinking (str_replace ''%25'' ''%'')" "shrinking (str_replace ''%2e'' ''.'')"
  "shrinking (str_replace ''%2f'' ''/'')"
  by (rule shrinking_str_replace, simp)+

lemma decode_pass_shrinking: "shrinking decode_pass"
  using shrinking_comp [OF shrinking_comp [OF escape_shrinking(1,2)] escape_shrinking(3)]
  unfolding shrinking_def decode_pass_def by blast

lemma decode_pass_fixed_iff:
  "decode_pass p = p \<longleftrightarrow>
     str_replace ''%25'' ''%'' p = p \<and> str_replace ''%2e'' ''.'' p = p \<and> str_replace ''%2f'' ''/'' p = p"
  unfolding decode_pass_def
  by (subst shrinking_fixed [OF shrinking_comp [OF escape_shrinking(1,2)] escape_shrinking(3)])
    (auto simp: shrinking_fixed [OF escape_shrinking(1,2)])

function decode_fully :: "string \<Rightarrow> string" where
  "decode_fully p = (if decode_pass p = p then p else decode_fully (decode_pass p))"
  by pat_completeness auto
termination
  using decode_pass_shrinking by (relation "measure length") (auto simp: shrinking_def)

declare decode_fully.simps [simp del]

definition path_contains_traversal :: "string \<Rightarrow> bool" where
  "path_contains_traversal path \<longleftrightarrow>
     list_ex (\<lambda>seg. seg = ''..'') (split_on CHR ''/'' (decode_fully (to_ascii_lowercase path)))"

definition path_is_safe :: "string \<Rightarrow> bool" where
  "path_is_safe path \<longleftrightarrow>
     starts_with path ''/''
     \<and> \<not> list_ex (\<lambda>c. is_ascii_control c \<or> c = CHR '' '' \<or> c = CHR 0x5C) path"

definition query_is_safe :: "string \<Rightarrow> bool" where
  "query_is_safe query \<longleftrightarrow> \<not> list_ex (\<lambda>c. is_ascii_control c \<or> c = CHR '' '') query"

definition HOP_BY_HOP :: "string list" where
  "HOP_BY_HOP = [''connection'', ''keep-alive'', ''proxy-authenticate'', ''proxy-authorization'',
     ''te'', ''trailers'', ''transfer-encoding'', ''upgrade'']"

definition strip_hop_by_hop_headers :: "(string \<times> string) list \<Rightarrow> (string \<times> string) list" where
  "strip_hop_by_hop_headers headers =
     filter (\<lambda>(name, _). to_lowercase name \<notin> set HOP_BY_HOP) headers"

subsection \<open>Decoding one escape at a time\<close>

definition escapes :: "(string \<times> string) list" where
  "escapes = [(''%25'', ''%''), (''%2e'', ''.''), (''%2f'', ''/'')]"

inductive decode_step :: "string \<Rightarrow> string \<Rightarrow> bool" where
  decode_one: "(pat, rep) \<in> set escapes \<Longrightarrow> decode_step (a @ pat @ b) (a @ rep @ b)"

lemma decode_step_iff:
  "decode_step s t \<longleftrightarrow>
     (\<exists>pat rep a b. (pat, rep) \<in> set escapes \<and> s = a @ pat @ b \<and> t = a @ rep @ b)"
  by (auto simp: decode_step.simps)

lemma decode_step_context: "decode_step s t \<Longrightarrow> decode_step (u @ s @ v) (u @ t @ v)"
proof (induction rule: decode_step.induct)
  case (decode_one pat rep a b)
  from decode_step.decode_one [OF this, of "u @ a" "b @ v"] show ?case by simp
qed

lemma decode_steps_context: "decode_step\<^sup>*\<^sup>* s t \<Longrightarrow> decode_step\<^sup>*\<^sup>* (u @ s @ v) (u @ t @ v)"
  by (induction rule: rtranclp_induct) (auto intro: decode_step_context rtranclp.rtrancl_into_rtrancl)

text \<open>Replacing all occurrences of one escape is a run of single steps.\<close>

lemma str_replace_steps:
  assumes esc: "(pat, rep) \<in> set escapes"
  shows "decode_step\<^sup>*\<^sup>* s (str_replace pat rep s)"
proof (induction s rule: length_induct)
  case (1 s)
  have pat: "pat \<noteq> []" using esc by (auto simp: escapes_def)
  show ?case
  proof (cases s)
    case (Cons c r)
    show ?thesis
    proof (cases "prefix pat s")
      case True
      then obtain t where s: "s = pat @ t" by (auto simp: prefix_def)
      with pat 1 have "decode_step\<^sup>*\<^sup>* t (str_replace pat rep t)" by simp
      then have "decode_step\<^sup>*\<^sup>* (rep @ t) (rep @ str_replace pat rep t)"
        using decode_steps_context [of t _ rep "[]"] by simp
      moreover have "decode_step s (rep @ t)"
        using decode_one [OF esc, of "[]" t] by (simp add: s)
      ultimately show ?thesis using pat by (simp add: s str_replace_prefix)
    next
      case False
      with 1 Cons have "decode_step\<^sup>*\<^sup>* r (str_replace pat rep r)" by simp
      with decode_steps_context [of r _ "[c]" "[]"] False Cons show ?thesis
        by (simp add: str_replace_skip)
    qed
  qed simp
qed

lemma decode_pass_steps: "decode_step\<^sup>*\<^sup>* p (decode_pass p)"
  unfolding decode_pass_def
  by (rule rtranclp_trans [OF rtranclp_trans [OF str_replace_steps str_replace_steps] str_replace_steps])
    (simp_all add: escapes_def)

lemma decode_fully_steps: "decode_step\<^sup>*\<^sup>* p (decode_fully p)"
proof (induction p rule: decode_fully.induct)
  case (1 p)
  then show ?case
    using decode_pass_steps [of p] by (auto simp: decode_fully.simps [of p])
qed

lemma decode_fully_fixed: "decode_pass (decode_fully p) = decode_fully p"
  by (induction p rule: decode_fully.induct) (simp add: decode_fully.simps)

text \<open>What a pass leaves alone holds no escape.\<close>

lemma decode_pass_occurs:
  assumes "(pat, rep) \<in> set escapes"
  shows "decode_pass (a @ pat @ b) \<noteq> a @ pat @ b"
proof
  assume "decode_pass (a @ pat @ b) = a @ pat @ b"
  then have "str_replace pat rep (a @ pat @ b) = a @ pat @ b"
    using assms by (auto simp: decode_pass_fixed_iff escapes_def)
  moreover have "length rep < length pat" using assms by (auto simp: escapes_def)
  ultimately show False using str_replace_occurs [of rep pat a b] by simp
qed

lemma decode_fully_normal: "\<not> decode_step (decode_fully p) q"
proof
  assume "decode_step (decode_fully p) q"
  then obtain pat rep a b where "(pat, rep) \<in> set escapes" "decode_fully p = a @ pat @ b"
    by (auto elim: decode_step.cases)
  with decode_pass_occurs decode_fully_fixed show False by metis
qed

text \<open>Two escapes in one string are the same or do not overlap.\<close>

lemma escapes_disjoint:
  assumes "(p, r) \<in> set escapes" "(p', r') \<in> set escapes" "p @ b = us @ p' @ b'"
  shows "(us = [] \<and> p = p' \<and> r = r' \<and> b = b') \<or> (\<exists>m. us = p @ m \<and> b = m @ p' @ b')"
proof -
  consider "us = []" | x where "us = [x]" | x y where "us = [x, y]"
    | x y z m where "us = x # y # z # m"
    by (metis list.exhaust)
  then show ?thesis using assms by cases (auto simp: escapes_def)
qed

lemma decode_step_diamond_aux:
  assumes "(p, r) \<in> set escapes" "(p', r') \<in> set escapes" "a @ p @ b = (a @ us) @ p' @ b'"
  shows "a @ r @ b = (a @ us) @ r' @ b'
    \<or> (\<exists>v. decode_step (a @ r @ b) v \<and> decode_step ((a @ us) @ r' @ b') v)"
proof -
  from assms(3) have "p @ b = us @ p' @ b'" by simp
  from escapes_disjoint [OF assms(1,2) this]
  consider "us = []" "r = r'" "b = b'" | m where "us = p @ m" "b = m @ p' @ b'" by blast
  then show ?thesis
  proof cases
    case 2
    have "decode_step ((a @ r @ m) @ p' @ b') ((a @ r @ m) @ r' @ b')"
      by (rule decode_one [OF assms(2)])
    moreover have "decode_step (a @ p @ (m @ r' @ b')) (a @ r @ (m @ r' @ b'))"
      by (rule decode_one [OF assms(1)])
    ultimately show ?thesis using 2 by auto
  qed simp
qed

lemma decode_step_diamond:
  assumes "decode_step s t" "decode_step s u"
  shows "t = u \<or> (\<exists>v. decode_step t v \<and> decode_step u v)"
proof -
  from assms(1) obtain p r a b where
    1: "(p, r) \<in> set escapes" "s = a @ p @ b" "t = a @ r @ b"
    unfolding decode_step_iff by blast
  from assms(2) obtain p' r' a' b' where
    2: "(p', r') \<in> set escapes" "s = a' @ p' @ b'" "u = a' @ r' @ b'"
    unfolding decode_step_iff by blast
  from 1(2) 2(2) have "a @ p @ b = a' @ p' @ b'" by simp
  then consider us where "a' = a @ us" | us where "a = a' @ us"
    by (auto simp: append_eq_append_conv2)
  then show ?thesis
  proof cases
    case 1
    with decode_step_diamond_aux [of p r p' r' a b us b'] \<open>a @ p @ b = a' @ p' @ b'\<close>
    show ?thesis using \<open>(p, r) \<in> set escapes\<close> 2 \<open>t = a @ r @ b\<close> by auto
  next
    case 2
    with decode_step_diamond_aux [of p' r' p r a' b' us b] \<open>a @ p @ b = a' @ p' @ b'\<close>
    show ?thesis using \<open>(p, r) \<in> set escapes\<close> \<open>(p', r') \<in> set escapes\<close>
        \<open>t = a @ r @ b\<close> \<open>u = a' @ r' @ b'\<close> by auto
  qed
qed

text \<open>A parent segment that has appeared stays through every further step.\<close>

lemma decode_step_keeps_parent:
  assumes "decode_step s t" "''..'' \<in> set (split_on CHR ''/'' s)"
  shows "''..'' \<in> set (split_on CHR ''/'' t)"
  using assms
proof (induction rule: decode_step.induct)
  case (decode_one pat rep a b)
  let ?A = "split_on CHR ''/'' a" and ?B = "split_on CHR ''/'' b"
  have "last ?A @ pat @ hd ?B \<noteq> ''..''"
    using decode_one by (cases "last ?A") (auto simp: escapes_def Cons_eq_append_conv)
  with decode_one have "''..'' \<in> set (butlast ?A) \<or> ''..'' \<in> set (tl ?B)"
    by (auto simp: escapes_def split_on_append split_on_id)
  then show ?case
    using decode_one(1) in_set_butlastD [of "''..''" ?A] list.set_sel(2) [of ?B "''..''"]
    by (auto simp: escapes_def split_on_append split_on_append_sep)
qed

lemma decode_steps_keep_parent:
  "decode_step\<^sup>*\<^sup>* s t \<Longrightarrow> ''..'' \<in> set (split_on CHR ''/'' s) \<Longrightarrow> ''..'' \<in> set (split_on CHR ''/'' t)"
  by (induction rule: rtranclp_induct) (auto intro: decode_step_keeps_parent)

text \<open>
  C20: the traversal check refuses a path exactly when some sequence of decoding steps, each
  turning one percent-escape of a percent sign, a dot or a slash into its character, anywhere and
  in any order, leads to a path with a parent segment. No order of decoding that a backend could
  choose, and no depth of nested encoding, reveals a parent segment the check has let through.
\<close>

theorem path_contains_traversal_iff:
  "path_contains_traversal path \<longleftrightarrow>
     (\<exists>q. decode_step\<^sup>*\<^sup>* (to_ascii_lowercase path) q \<and> ''..'' \<in> set (split_on CHR ''/'' q))"
proof
  assume "path_contains_traversal path"
  then show "\<exists>q. decode_step\<^sup>*\<^sup>* (to_ascii_lowercase path) q \<and> ''..'' \<in> set (split_on CHR ''/'' q)"
    using decode_fully_steps by (auto simp: path_contains_traversal_def list_ex_iff)
next
  let ?p = "to_ascii_lowercase path"
  assume "\<exists>q. decode_step\<^sup>*\<^sup>* ?p q \<and> ''..'' \<in> set (split_on CHR ''/'' q)"
  then obtain q where q: "decode_step\<^sup>*\<^sup>* ?p q" "''..'' \<in> set (split_on CHR ''/'' q)" by blast
  have "decode_step\<^sup>*\<^sup>* q (decode_fully ?p)"
    by (rule diamond_normal_form [OF decode_step_diamond decode_fully_normal decode_fully_steps q(1)])
  from decode_steps_keep_parent [OF this q(2)] show "path_contains_traversal path"
    by (auto simp: path_contains_traversal_def list_ex_iff)
qed

lemma decode_step_example: "decode_step\<^sup>*\<^sup>* ''/%252e./x'' ''/../x''"
proof -
  have "decode_step (''/'' @ ''%25'' @ ''2e./x'') (''/'' @ ''%'' @ ''2e./x'')"
    by (rule decode_one) (simp add: escapes_def)
  moreover have "decode_step (''/'' @ ''%2e'' @ ''./x'') (''/'' @ ''.'' @ ''./x'')"
    by (rule decode_one) (simp add: escapes_def)
  ultimately show ?thesis by simp
qed

theorem path_contains_traversal_iff_witness: "path_contains_traversal ''/%252E./x''"
proof -
  have "to_ascii_lowercase ''/%252E./x'' = ''/%252e./x''" by code_simp
  then show ?thesis
    unfolding path_contains_traversal_iff
    by (intro exI [of _ "''/../x''"]) (simp add: decode_step_example)
qed

subsection \<open>Headers\<close>

lemma set_strip_hop_by_hop:
  "set (strip_hop_by_hop_headers hs) = {h \<in> set hs. to_lowercase (fst h) \<notin> set HOP_BY_HOP}"
  by (auto simp: strip_hop_by_hop_headers_def)

lemma strip_hop_by_hop_idem [simp]:
  "strip_hop_by_hop_headers (strip_hop_by_hop_headers hs) = strip_hop_by_hop_headers hs"
  by (simp add: strip_hop_by_hop_headers_def)

lemma path_is_safe_chars:
  "path_is_safe p \<Longrightarrow> \<exists>q. p = CHR ''/'' # q"
  by (cases p) (auto simp: path_is_safe_def)

end
