(* ===== verification/Grpc_Frames.thy ===== *)
theory Grpc_Frames
  imports Errors
begin

unbundle bit_operations_syntax

section \<open>gRPC length-prefixed frames (src/protocols/grpc.rs)\<close>

text \<open>
  \<open>encode_grpc_frame\<close>, the single-frame \<open>decode_grpc_frame\<close> and the loop \<open>decode_grpc_frames\<close>,
  over bytes of 8 bits and a length field of 32 bits. A \<open>usize\<close> has 64 bits. The loop is shown
  equal to a recursion over the remaining bytes, and from it to accept exactly the concatenations
  of encoded frames.
\<close>

definition GRPC_HEADER_LEN :: nat where
  "GRPC_HEADER_LEN = 5"

definition u32_to_be_bytes :: "u32 \<Rightarrow> bytes" where
  "u32_to_be_bytes w = [ucast (drop_bit 24 w), ucast (drop_bit 16 w), ucast (drop_bit 8 w), ucast w]"

definition u32_from_be_bytes :: "u8 \<Rightarrow> u8 \<Rightarrow> u8 \<Rightarrow> u8 \<Rightarrow> u32" where
  "u32_from_be_bytes a b c d =
     push_bit 24 (ucast a) OR push_bit 16 (ucast b) OR push_bit 8 (ucast c) OR ucast d"

definition encode_grpc_frame :: "bytes \<Rightarrow> bytes" where
  "encode_grpc_frame payload =
     [0] @ u32_to_be_bytes (word_of_nat (length payload)) @ payload"

definition decode_grpc_frame :: "bytes \<Rightarrow> bytes result" where
  "decode_grpc_frame data =
     (if length data < GRPC_HEADER_LEN then
        Err (Protocol (''gRPC frame too short: '' @ show_nat (length data)
               @ '' bytes (expected at least '' @ show_nat GRPC_HEADER_LEN @ '')''))
      else if data ! 0 \<noteq> 0 then
        Err (Protocol (''Unsupported gRPC compression flag: '' @ show_nat (unat (data ! 0))
               @ '' (only uncompressed (0) is supported)''))
      else
        let declared_len = unat (u32_from_be_bytes (data ! 1) (data ! 2) (data ! 3) (data ! 4));
            payload = drop GRPC_HEADER_LEN data
        in if length payload < declared_len then
             Err (Protocol (''gRPC frame payload truncated: declared '' @ show_nat declared_len
                    @ '' bytes, got '' @ show_nat (length payload)))
           else Ok (take declared_len payload))"

text \<open>\<open>usize::checked_add\<close>.\<close>

definition checked_add_usize :: "nat \<Rightarrow> nat \<Rightarrow> nat option" where
  "checked_add_usize a b = (if a + b < 2 ^ 64 then Some (a + b) else None)"

definition frame_end :: "nat \<Rightarrow> nat \<Rightarrow> nat option" where
  "frame_end declared_len n =
     (case checked_add_usize GRPC_HEADER_LEN declared_len of
        Some e \<Rightarrow> if e \<le> n then Some e else None
      | None \<Rightarrow> None)"

lemma frame_end_bounds: "frame_end d n = Some e \<Longrightarrow> e = 5 + d \<and> e \<le> n"
  by (auto simp: frame_end_def checked_add_usize_def GRPC_HEADER_LEN_def split: if_splits)

function decode_frames_loop :: "bytes \<Rightarrow> nat \<Rightarrow> bytes \<Rightarrow> bytes result" where
  "decode_frames_loop data offset out =
     (if offset < length data then
        let remaining = drop offset data in
        if length remaining < GRPC_HEADER_LEN then
          Err (Protocol (''gRPC frame too short: '' @ show_nat (length remaining)
                 @ '' trailing bytes (expected at least '' @ show_nat GRPC_HEADER_LEN @ '')''))
        else if remaining ! 0 \<noteq> 0 then
          Err (Protocol (''Unsupported gRPC compression flag: '' @ show_nat (unat (remaining ! 0))
                 @ '' (only uncompressed (0) is supported)''))
        else
          let declared_len = unat (u32_from_be_bytes (remaining ! 1) (remaining ! 2)
                                     (remaining ! 3) (remaining ! 4))
          in case frame_end declared_len (length remaining) of
               None \<Rightarrow> Err (Protocol (''gRPC frame payload truncated: declared ''
                         @ show_nat declared_len @ '' bytes, got ''
                         @ show_nat (length remaining - GRPC_HEADER_LEN)))
             | Some e \<Rightarrow> decode_frames_loop data (offset + e)
                          (out @ take (e - GRPC_HEADER_LEN) (drop GRPC_HEADER_LEN remaining))
      else Ok out)"
  by pat_completeness auto
termination
  by (relation "measure (\<lambda>(data, offset, _). length data - offset)")
    (auto dest: frame_end_bounds)

declare decode_frames_loop.simps [simp del]

definition decode_grpc_frames :: "bytes \<Rightarrow> bytes result" where
  "decode_grpc_frames data = decode_frames_loop data 0 []"

subsection \<open>The length field\<close>

lemma length_u32_to_be_bytes [simp]: "length (u32_to_be_bytes w) = 4"
  by (simp add: u32_to_be_bytes_def)

lemma u32_from_to_be_bytes_aux:
  "u32_from_be_bytes (ucast (drop_bit 24 w)) (ucast (drop_bit 16 w)) (ucast (drop_bit 8 w)) (ucast w) = w"
proof (rule bit_word_eqI)
  fix n assume "n < LENGTH(32)"
  then consider "n < 8" | "8 \<le> n" "n < 16" | "16 \<le> n" "n < 24" | "24 \<le> n" "n < 32" by force
  then show "bit (u32_from_be_bytes (ucast (drop_bit 24 w)) (ucast (drop_bit 16 w))
      (ucast (drop_bit 8 w)) (ucast w)) n = bit w n"
    by cases (auto simp: u32_from_be_bytes_def bit_simps)
qed

lemma u32_from_to_be_bytes:
  "u32_to_be_bytes w = [a, b, c, d] \<Longrightarrow> u32_from_be_bytes a b c d = w"
  using u32_from_to_be_bytes_aux [of w] by (auto simp: u32_to_be_bytes_def)

lemma u32_to_from_be_bytes: "u32_to_be_bytes (u32_from_be_bytes a b c d) = [a, b, c, d]"
  by (auto simp: u32_to_be_bytes_def u32_from_be_bytes_def bit_eq_iff bit_simps
      dest: bit_imp_le_length)

subsection \<open>The loop as a recursion over the remaining bytes\<close>

text \<open>One turn: either the end, an error, or the payload of a frame and the bytes after it.\<close>

lemma loop_Nil: "length data \<le> offset \<Longrightarrow> decode_frames_loop data offset out = Ok out"
  by (simp add: decode_frames_loop.simps)

lemma drop_frame_shape:
  assumes "offset < length data" "length (drop offset data) \<ge> 5"
  obtains f a b c d r where "drop offset data = f # a # b # c # d # r"
proof -
  obtain f xs where 1: "drop offset data = f # xs" using assms(2) by (cases "drop offset data") auto
  obtain a xs1 where 2: "xs = a # xs1" using assms(2) 1 by (cases xs) auto
  obtain b xs2 where 3: "xs1 = b # xs2" using assms(2) 1 2 by (cases xs1) auto
  obtain c xs3 where 4: "xs2 = c # xs3" using assms(2) 1 2 3 by (cases xs2) auto
  obtain d xs4 where 5: "xs3 = d # xs4" using assms(2) 1 2 3 4 by (cases xs3) auto
  show ?thesis using that 1 2 3 4 5 by simp
qed

lemma length_encode_grpc_frame [simp]: "length (encode_grpc_frame p) = 5 + length p"
  by (simp add: encode_grpc_frame_def)

text \<open>A frame at the front of the remaining bytes is consumed whole.\<close>

lemma loop_frame:
  assumes "drop offset data = encode_grpc_frame p @ rest" and p: "length p < 2 ^ 32"
  shows "decode_frames_loop data offset out =
    decode_frames_loop data (offset + (5 + length p)) (out @ p)"
proof -
  obtain a b c d where be: "u32_to_be_bytes (word_of_nat (length p)) = [a, b, c, d]"
    by (simp add: u32_to_be_bytes_def)
  have data: "drop offset data = 0 # a # b # c # d # p @ rest"
    using assms(1) by (simp add: encode_grpc_frame_def be)
  have len: "unat (u32_from_be_bytes a b c d) = length p"
    using u32_from_to_be_bytes [OF be] p by (simp add: unat_of_nat)
  have off: "offset < length data" using data by (metis drop_all linorder_not_less list.discI)
  have "length (drop offset data) = 5 + length p + length rest" by (simp add: data)
  then have fe: "frame_end (length p) (length (drop offset data)) = Some (5 + length p)"
    using p by (simp add: frame_end_def checked_add_usize_def GRPC_HEADER_LEN_def)
  show ?thesis
    using off fe by (subst decode_frames_loop.simps) (simp add: data len GRPC_HEADER_LEN_def)
qed

lemma loop_frames:
  assumes "drop offset data = concat (map encode_grpc_frame ps)" "offset \<le> length data"
    and "\<forall>p \<in> set ps. length p < 2 ^ 32"
  shows "decode_frames_loop data offset out = Ok (out @ concat ps)"
  using assms
proof (induction ps arbitrary: offset out)
  case Nil
  then show ?case by (simp add: loop_Nil)
next
  case (Cons p ps)
  let ?o = "offset + (5 + length p)"
  have d: "drop ?o data = concat (map encode_grpc_frame ps)"
    using arg_cong [OF Cons.prems(1), of "drop (length (encode_grpc_frame p))"]
    by (simp add: ac_simps del: drop_append) (simp add: ac_simps)
  have "length (drop offset data) \<ge> 5 + length p"
    by (simp only: Cons.prems(1)) simp
  then have "?o \<le> length data" by simp
  with Cons.IH [OF d this] Cons.prems show ?case
    by (simp add: loop_frame)
qed

text \<open>A loop that succeeds has read encoded frames only.\<close>

lemma loop_Ok_frames:
  "decode_frames_loop data offset out = Ok res \<Longrightarrow> offset \<le> length data \<Longrightarrow>
   \<exists>ps. drop offset data = concat (map encode_grpc_frame ps) \<and> res = out @ concat ps
        \<and> (\<forall>p \<in> set ps. length p < 2 ^ 32)"
proof (induction data offset out rule: decode_frames_loop.induct)
  case (1 data offset out)
  show ?case
  proof (cases "offset < length data")
    case False
    with 1 show ?thesis by (intro exI [of _ "[]"]) (simp add: loop_Nil)
  next
    case True
    then obtain f a b c d r where sh: "drop offset data = f # a # b # c # d # r"
      using "1.prems"(1) decode_frames_loop.simps [of data offset out] drop_frame_shape [OF True]
      by (fastforce simp: Let_def GRPC_HEADER_LEN_def not_less split: if_splits)
    let ?n = "unat (u32_from_be_bytes a b c d)"
    from "1.prems"(1) True obtain e where f: "f = 0"
      and e: "frame_end ?n (length (drop offset data)) = Some e"
      and rec: "decode_frames_loop data (offset + e) (out @ take (e - 5) r) = Ok res"
      using decode_frames_loop.simps [of data offset out]
      by (simp add: sh GRPC_HEADER_LEN_def Let_def split: if_splits option.splits)
    from frame_end_bounds [OF e] have e5: "e = 5 + ?n" and le: "5 + ?n \<le> 5 + length r"
      by (auto simp: sh)
    let ?p = "take ?n r"
    have plen: "length ?p = ?n" using le by simp
    have "offset + e \<le> length data"
      using arg_cong [OF sh, of length] e5 le by simp
    then have "\<exists>ps. drop (offset + e) data = concat (map encode_grpc_frame ps)
      \<and> res = (out @ take (e - GRPC_HEADER_LEN) (drop GRPC_HEADER_LEN (drop offset data))) @ concat ps
      \<and> (\<forall>p \<in> set ps. length p < 2 ^ 32)"
      using rec e by (intro "1.IH" [OF True refl _ _ refl]) (simp_all add: sh f GRPC_HEADER_LEN_def)
    then obtain ps where
      ps: "drop (offset + e) data = concat (map encode_grpc_frame ps)"
      "res = (out @ ?p) @ concat ps" "\<forall>p \<in> set ps. length p < 2 ^ 32"
      by (auto simp: sh GRPC_HEADER_LEN_def e5)
    have "drop (offset + e) data = drop ?n r"
      using arg_cong [OF sh, of "\<lambda>xs. drop ?n (drop 5 xs)"] by (simp add: e5 ac_simps)
    moreover have "encode_grpc_frame ?p = 0 # a # b # c # d # ?p"
      using le by (simp add: encode_grpc_frame_def min_absorb2 u32_to_from_be_bytes)
    ultimately have "drop offset data = encode_grpc_frame ?p @ drop (offset + e) data"
      by (simp add: sh f)
    moreover have "?n < 2 ^ 32" using unsigned_less [where ?'a = nat, of "u32_from_be_bytes a b c d"] by simp
    ultimately show ?thesis using ps plen
      by (intro exI [of _ "?p # ps"]) auto
  qed
qed

text \<open>
  C23: \<open>decode_grpc_frames\<close> accepts exactly the buffers that are a sequence of encoded frames, and
  returns the payloads in order. Nothing is lost, nothing else is accepted (a truncated,
  compressed or short tail is an error), and the loop ends on every input.
\<close>

theorem decode_grpc_frames_Ok_iff:
  "decode_grpc_frames data = Ok out \<longleftrightarrow>
     (\<exists>ps. (\<forall>p \<in> set ps. length p < 2 ^ 32)
           \<and> data = concat (map encode_grpc_frame ps) \<and> out = concat ps)"
proof
  assume "decode_grpc_frames data = Ok out"
  from loop_Ok_frames [OF this [unfolded decode_grpc_frames_def]]
  show "\<exists>ps. (\<forall>p \<in> set ps. length p < 2 ^ 32)
      \<and> data = concat (map encode_grpc_frame ps) \<and> out = concat ps" by auto
next
  assume "\<exists>ps. (\<forall>p \<in> set ps. length p < 2 ^ 32)
      \<and> data = concat (map encode_grpc_frame ps) \<and> out = concat ps"
  then show "decode_grpc_frames data = Ok out"
    by (auto simp: decode_grpc_frames_def loop_frames)
qed

theorem decode_grpc_frames_Ok_iff_witness:
  "decode_grpc_frames (encode_grpc_frame [1, 2] @ encode_grpc_frame [] @ encode_grpc_frame [3])
     = Ok [1, 2, 3]"
  unfolding decode_grpc_frames_Ok_iff
  by (rule exI [of _ "[[1, 2], [], [3]]"]) simp

text \<open>
  On a single encoded frame the loop and the single-frame decoder agree, and both give the
  payload back, for every payload whose length fits the 32-bit field. A request body is at most
  10 MiB, well below that.
\<close>

lemma grpc_single_frame_roundtrip:
  assumes "length p < 2 ^ 32"
  shows "decode_grpc_frame (encode_grpc_frame p) = Ok p
    \<and> decode_grpc_frames (encode_grpc_frame p) = Ok p"
proof
  obtain a b c d where be: "u32_to_be_bytes (word_of_nat (length p)) = [a, b, c, d]"
    by (simp add: u32_to_be_bytes_def)
  have "unat (u32_from_be_bytes a b c d) = length p"
    using u32_from_to_be_bytes [OF be] assms by (simp add: unat_of_nat)
  then show "decode_grpc_frame (encode_grpc_frame p) = Ok p"
    by (simp add: decode_grpc_frame_def encode_grpc_frame_def be GRPC_HEADER_LEN_def)
  show "decode_grpc_frames (encode_grpc_frame p) = Ok p"
    using assms loop_frames [of 0 "encode_grpc_frame p" "[p]" "[]"]
    by (simp add: decode_grpc_frames_def)
qed

end
