(* ===== verification/Protocols.thy ===== *)
theory Protocols
  imports Config Http_Protocol Grpc_Frames
begin

section \<open>The protocol codecs (src/protocols)\<close>

text \<open>
  The seven implementations of the trait \<open>Protocol\<close> and the factory \<open>build_protocols\<close> of
  \<open>src/core/gateway.rs\<close>. The interface is the locale \<open>protocol_codec\<close>: what \<open>encode\<close> accepts,
  \<open>decode\<close> gives back. \<open>validating_codec\<close> adds that everything else is refused and that an accepted
  payload goes through unchanged; \<open>size_guard\<close> is the special case of a plain size limit. The JSON
  parser of serde\_json is the parameter \<open>from_slice\<close>.
\<close>

datatype protocol =
    HttpProtocol | GrpcProtocol | GraphQLProtocol | AmqpProtocol | MqttProtocol
  | WebSocketProtocol | ZmqProtocol

fun protocol_name :: "protocol \<Rightarrow> string" where
  "protocol_name HttpProtocol = ''http''"
| "protocol_name GrpcProtocol = ''grpc''"
| "protocol_name GraphQLProtocol = ''graphql''"
| "protocol_name AmqpProtocol = ''amqp''"
| "protocol_name MqttProtocol = ''mqtt''"
| "protocol_name WebSocketProtocol = ''websocket''"
| "protocol_name ZmqProtocol = ''zmq''"

definition MAX_MESSAGE_SIZE :: nat where
  "MAX_MESSAGE_SIZE = 10 * 1024 * 1024"

definition MAX_PACKET_SIZE :: nat where
  "MAX_PACKET_SIZE = 10 * 1024 * 1024"

definition MAX_FRAME_SIZE :: nat where
  "MAX_FRAME_SIZE = 10 * 1024 * 1024"

definition amqp_encode :: "bytes \<Rightarrow> bytes result" where
  "amqp_encode data =
     (if MAX_MESSAGE_SIZE < length data then Err (Protocol ''AMQP message too large'') else Ok data)"

definition amqp_decode :: "bytes \<Rightarrow> bytes result" where
  "amqp_decode data =
     (if MAX_MESSAGE_SIZE < length data then Err (Protocol ''AMQP message too large'') else Ok data)"

definition mqtt_encode :: "bytes \<Rightarrow> bytes result" where
  "mqtt_encode data =
     (if MAX_PACKET_SIZE < length data then Err (Protocol ''MQTT packet too large'') else Ok data)"

definition mqtt_decode :: "bytes \<Rightarrow> bytes result" where
  "mqtt_decode data =
     (if MAX_PACKET_SIZE < length data then Err (Protocol ''MQTT packet too large'') else Ok data)"

definition zmq_encode :: "bytes \<Rightarrow> bytes result" where
  "zmq_encode data =
     (if MAX_FRAME_SIZE < length data then Err (Protocol ''ZMQ frame too large'') else Ok data)"

definition zmq_decode :: "bytes \<Rightarrow> bytes result" where
  "zmq_decode data =
     (if MAX_FRAME_SIZE < length data then Err (Protocol ''ZMQ frame too large'') else Ok data)"

definition ws_encode :: "bytes \<Rightarrow> bytes result" where
  "ws_encode data = Ok data"

definition ws_decode :: "bytes \<Rightarrow> bytes result" where
  "ws_decode data = Ok data"

definition grpc_encode :: "bytes \<Rightarrow> bytes result" where
  "grpc_encode data = Ok (encode_grpc_frame data)"

definition grpc_decode :: "bytes \<Rightarrow> bytes result" where
  "grpc_decode data = decode_grpc_frames data"

type_synonym json_parser = "bytes \<Rightarrow> string + json"

fun is_json_object :: "json \<Rightarrow> bool" where
  "is_json_object (JObject kvs) = True"
| "is_json_object _ = False"

definition graphql_encode :: "json_parser \<Rightarrow> bytes \<Rightarrow> bytes result" where
  "graphql_encode from_slice data =
     (case from_slice data of
        Inl e \<Rightarrow> Err (GraphQL_Error (''Invalid JSON: '' @ e))
      | Inr value \<Rightarrow>
          if \<not> is_json_object value then
            Err (GraphQL_Error ''GraphQL request must be a JSON object'')
          else if json_get value ''query'' = None then
            Err (GraphQL_Error (''GraphQL request must contain a '' @ [CHR 0x27] @ ''query'' @ [CHR 0x27] @ '' field''))
          else Ok data)"

definition graphql_decode :: "json_parser \<Rightarrow> bytes \<Rightarrow> bytes result" where
  "graphql_decode from_slice data =
     (if data \<noteq> [] then
        (case from_slice data of
           Inl e \<Rightarrow> Err (GraphQL_Error (''GraphQL response is not valid JSON: '' @ e))
         | Inr _ \<Rightarrow> Ok data)
      else Ok data)"

fun protocol_encode :: "json_parser \<Rightarrow> protocol \<Rightarrow> bytes \<Rightarrow> bytes result" where
  "protocol_encode from_slice HttpProtocol = http_encode"
| "protocol_encode from_slice GrpcProtocol = grpc_encode"
| "protocol_encode from_slice GraphQLProtocol = graphql_encode from_slice"
| "protocol_encode from_slice AmqpProtocol = amqp_encode"
| "protocol_encode from_slice MqttProtocol = mqtt_encode"
| "protocol_encode from_slice WebSocketProtocol = ws_encode"
| "protocol_encode from_slice ZmqProtocol = zmq_encode"

fun protocol_decode :: "json_parser \<Rightarrow> protocol \<Rightarrow> bytes \<Rightarrow> bytes result" where
  "protocol_decode from_slice HttpProtocol = http_decode"
| "protocol_decode from_slice GrpcProtocol = grpc_decode"
| "protocol_decode from_slice GraphQLProtocol = graphql_decode from_slice"
| "protocol_decode from_slice AmqpProtocol = amqp_decode"
| "protocol_decode from_slice MqttProtocol = mqtt_decode"
| "protocol_decode from_slice WebSocketProtocol = ws_decode"
| "protocol_decode from_slice ZmqProtocol = zmq_decode"

subsection \<open>The factory\<close>

definition protocol_of_config :: "protocol_config \<Rightarrow> protocol result" where
  "protocol_of_config c =
     (if pc_name c = ''http'' then Ok HttpProtocol
      else if pc_name c = ''grpc'' then Ok GrpcProtocol
      else if pc_name c = ''graphql'' then Ok GraphQLProtocol
      else if pc_name c = ''amqp'' then Ok AmqpProtocol
      else if pc_name c = ''mqtt'' then Ok MqttProtocol
      else if pc_name c = ''websocket'' then Ok WebSocketProtocol
      else if pc_name c = ''zmq'' then Ok ZmqProtocol
      else Err (Protocol (''Unsupported protocol: '' @ pc_name c)))"

text \<open>\<open>collect\<close> into a \<open>Result\<close>: the first error, or all the values.\<close>

fun collect_results :: "'a result list \<Rightarrow> 'a list result" where
  "collect_results [] = Ok []"
| "collect_results (r # rs) = and_then r (\<lambda>x. and_then (collect_results rs) (\<lambda>xs. Ok (x # xs)))"

definition build_protocols :: "protocol_config list \<Rightarrow> protocol list result" where
  "build_protocols configs =
     collect_results (map protocol_of_config (filter pc_enabled configs))"

subsection \<open>The interface\<close>

locale protocol_codec =
  fixes encode :: "bytes \<Rightarrow> bytes result"
    and decode :: "bytes \<Rightarrow> bytes result"
    and accepts :: "bytes \<Rightarrow> bool"
  assumes decode_encode: "accepts d \<Longrightarrow> and_then (encode d) decode = Ok d"
begin

lemma encode_accepts: "accepts d \<Longrightarrow> \<exists>e. encode d = Ok e \<and> decode e = Ok d"
  using decode_encode by auto

lemma encode_inj:
  assumes "accepts d" "accepts d'" "encode d = encode d'"
  shows "d = d'"
proof -
  from assms(1,2) have "and_then (encode d) decode = Ok d" "and_then (encode d') decode = Ok d'"
    by (blast intro: decode_encode)+
  with assms(3) show ?thesis by (metis result.inject(2))
qed

lemma round_trip: "accepts d \<Longrightarrow> encode d = Ok e \<Longrightarrow> decode e = Ok d"
  using decode_encode [of d] by simp

end

locale validating_codec = protocol_codec +
  assumes encode_refuses: "\<not> accepts d \<Longrightarrow> \<not> is_ok (encode d)"
    and encode_passes: "encode d = Ok e \<Longrightarrow> e = d"
begin

lemma encode_Ok_iff: "encode d = Ok e \<longleftrightarrow> accepts d \<and> e = d"
proof
  assume e: "encode d = Ok e"
  with encode_refuses [of d] have "accepts d" by auto
  with encode_passes [OF e] show "accepts d \<and> e = d" by simp
next
  assume "accepts d \<and> e = d"
  with encode_accepts [of d] encode_passes [of d] show "encode d = Ok e" by blast
qed

lemma relay: "encode d = Ok e \<Longrightarrow> decode e = Ok d"
  using encode_Ok_iff round_trip by blast

end

locale size_guard =
  fixes limit :: nat and too_large :: error
    and encode :: "bytes \<Rightarrow> bytes result" and decode :: "bytes \<Rightarrow> bytes result"
  assumes encode_guard: "encode d = (if limit < length d then Err too_large else Ok d)"
    and decode_guard: "decode d = (if limit < length d then Err too_large else Ok d)"

sublocale size_guard \<subseteq> sized: validating_codec encode decode "\<lambda>d. length d \<le> limit"
  by unfold_locales (auto simp: encode_guard decode_guard split: if_splits)

interpretation http_codec: size_guard MAX_BODY_SIZE "Protocol ''body too large''" http_encode http_decode
  by unfold_locales (simp_all add: http_encode_def http_decode_def)

interpretation amqp_codec: size_guard MAX_MESSAGE_SIZE "Protocol ''AMQP message too large''" amqp_encode amqp_decode
  by unfold_locales (simp_all add: amqp_encode_def amqp_decode_def)

interpretation mqtt_codec: size_guard MAX_PACKET_SIZE "Protocol ''MQTT packet too large''" mqtt_encode mqtt_decode
  by unfold_locales (simp_all add: mqtt_encode_def mqtt_decode_def)

interpretation zmq_codec: size_guard MAX_FRAME_SIZE "Protocol ''ZMQ frame too large''" zmq_encode zmq_decode
  by unfold_locales (simp_all add: zmq_encode_def zmq_decode_def)

interpretation ws_codec: validating_codec ws_encode ws_decode "\<lambda>_. True"
  by unfold_locales (simp_all add: ws_encode_def ws_decode_def)

interpretation grpc_codec: protocol_codec grpc_encode grpc_decode "\<lambda>d. length d < 2 ^ 32"
  by unfold_locales
    (simp add: grpc_encode_def grpc_decode_def decode_grpc_frames_def
      loop_frames [of 0 "encode_grpc_frame d" "[d]" "[]" for d, simplified])

definition graphql_accepts :: "json_parser \<Rightarrow> bytes \<Rightarrow> bool" where
  "graphql_accepts from_slice d \<longleftrightarrow>
     (\<exists>kvs. from_slice d = Inr (JObject kvs) \<and> ''query'' \<in> fst ` set kvs)"

lemma is_json_object_iff: "is_json_object v \<longleftrightarrow> (\<exists>kvs. v = JObject kvs)"
  by (cases v) auto

lemma graphql_accepted:
  assumes "graphql_accepts from_slice d"
  shows "graphql_encode from_slice d = Ok d" "graphql_decode from_slice d = Ok d"
proof -
  from assms obtain kvs where kvs: "from_slice d = Inr (JObject kvs)" "''query'' \<in> fst ` set kvs"
    by (auto simp: graphql_accepts_def)
  then have "map_of kvs ''query'' \<noteq> None" by (simp add: map_of_eq_None_iff)
  with kvs show "graphql_encode from_slice d = Ok d" "graphql_decode from_slice d = Ok d"
    by (simp_all add: graphql_encode_def graphql_decode_def)
qed

lemma graphql_encode_accepted:
  assumes "graphql_encode from_slice d = Ok e"
  shows "graphql_accepts from_slice d"
proof -
  from assms obtain v where v: "from_slice d = Inr v" "is_json_object v" "json_get v ''query'' \<noteq> None"
    by (auto simp: graphql_encode_def split: sum.splits if_splits)
  from v(2) obtain kvs where kvs: "v = JObject kvs" unfolding is_json_object_iff ..
  from v(3) have "''query'' \<in> fst ` set kvs"
    unfolding kvs json_get.simps map_of_eq_None_iff by blast
  with v(1) kvs show ?thesis by (auto simp: graphql_accepts_def)
qed

interpretation graphql_codec:
  validating_codec "graphql_encode from_slice" "graphql_decode from_slice" "graphql_accepts from_slice"
  for from_slice :: json_parser
proof
  fix d e
  show "graphql_accepts from_slice d \<Longrightarrow>
      and_then (graphql_encode from_slice d) (graphql_decode from_slice) = Ok d"
    by (simp add: graphql_accepted)
  show "\<not> graphql_accepts from_slice d \<Longrightarrow> \<not> is_ok (graphql_encode from_slice d)"
    unfolding is_ok_iff using graphql_encode_accepted by blast
  show "graphql_encode from_slice d = Ok e \<Longrightarrow> e = d"
    using graphql_accepted(1) graphql_encode_accepted by force
qed

text \<open>
  Whatever one of the seven protocols encodes, it decodes to the payload it was given. For
  gRPC the payload must be shorter than its 32-bit length field can say; the others have no such
  condition, because what they cannot carry they refuse.
\<close>

lemma protocol_round_trip:
  assumes "protocol_encode from_slice k d = Ok e" and "k = GrpcProtocol \<Longrightarrow> length d < 2 ^ 32"
  shows "protocol_decode from_slice k e = Ok d"
  using assms
proof (cases k)
  case HttpProtocol
  then show ?thesis using assms(1) http_codec.sized.relay [of d e] by simp
next
  case GrpcProtocol
  then show ?thesis using assms grpc_codec.round_trip [of d e] by simp
next
  case GraphQLProtocol
  then show ?thesis using assms(1) graphql_codec.relay [of from_slice d e] by simp
next
  case AmqpProtocol
  then show ?thesis using assms(1) amqp_codec.sized.relay [of d e] by simp
next
  case MqttProtocol
  then show ?thesis using assms(1) mqtt_codec.sized.relay [of d e] by simp
next
  case WebSocketProtocol
  then show ?thesis using assms(1) ws_codec.relay [of d e] by simp
next
  case ZmqProtocol
  then show ?thesis using assms(1) zmq_codec.sized.relay [of d e] by simp
qed

text \<open>
  The GraphQL codec lets a body through exactly when it parses to a JSON object with a
  \<open>query\<close> member, and then unchanged; anything else is a GraphQL error.
\<close>

lemma graphql_encode_Ok_iff:
  "graphql_encode from_slice d = Ok e \<longleftrightarrow>
     e = d \<and> (\<exists>kvs. from_slice d = Inr (JObject kvs) \<and> ''query'' \<in> fst ` set kvs)"
  using graphql_codec.encode_Ok_iff by (auto simp: graphql_accepts_def)

subsection \<open>The factory succeeds on known names\<close>

lemma collect_results_Ok_iff:
  "collect_results rs = Ok xs \<longleftrightarrow> rs = map Ok xs"
  by (induction rs arbitrary: xs) auto

lemma protocol_of_config_Ok_iff:
  "protocol_of_config c = Ok k \<longleftrightarrow> pc_name c = protocol_name k"
  by (cases k) (auto simp: protocol_of_config_def)

text \<open>
  The factory \<open>build_protocols\<close> succeeds exactly when every enabled entry has a supported name, and gives
  one protocol per enabled entry, in order and with that name. Disabled entries are never looked
  at.
\<close>

lemma build_protocols_Ok_iff:
  "build_protocols configs = Ok ps \<longleftrightarrow>
     map pc_name (filter pc_enabled configs) = map protocol_name ps"
proof -
  have "map protocol_of_config cs = map Ok ps \<longleftrightarrow> map pc_name cs = map protocol_name ps" for cs
    by (induction cs arbitrary: ps) (auto simp: Cons_eq_map_conv protocol_of_config_Ok_iff)
  then show ?thesis by (simp add: build_protocols_def collect_results_Ok_iff)
qed

end
