(* ===== verification/Middleware.thy ===== *)
theory Middleware
  imports Config
begin

unbundle bit_operations_syntax

section \<open>The middleware chain (src/core/middleware, src/core/types.rs)\<close>

text \<open>
  The core request and response types, the three middlewares and the chain that runs them:
  requests through the list in order up to the first error, responses in reverse. A middleware's
  interior state (the rate limiter's map behind its mutex) is passed along. An \<open>Instant\<close> and a
  \<open>Duration\<close> are counts of nanoseconds; \<open>duration_since\<close> saturates at zero, as subtraction on
  \<^typ>\<open>nat\<close> does. The interface of a middleware to the chain is the locale \<open>middleware_chain\<close>.
\<close>

subsection \<open>Requests, responses, configuration\<close>

record request_metadata =
  rm_protocol :: string
  rm_method :: "string option"
  rm_path :: "string option"
  rm_headers :: "(string \<times> string) list"
  rm_timeout :: "nat option"
  rm_remote_addr :: "string option"

record request =
  rq_data :: bytes
  rq_metadata :: request_metadata

record response_metadata =
  rs_status_code :: "u16 option"
  rs_headers :: "(string \<times> string) list"
  rs_duration :: "nat option"

record response =
  rs_data :: bytes
  rs_metadata :: response_metadata

record middleware_config =
  mc_enabled :: bool
  mc_settings :: json

type_synonym instant = nat

subsection \<open>Authentication (auth.rs)\<close>

definition constant_time_eq :: "string \<Rightarrow> string \<Rightarrow> bool" where
  "constant_time_eq a b =
     (let a = as_bytes a; b = as_bytes b in
      if length a \<noteq> length b then False
      else foldl (\<lambda>acc (x, y). acc OR (x XOR y)) 0 (zip a b) = 0)"

definition api_keys :: "middleware_config \<Rightarrow> json list option" where
  "api_keys cfg = Option.bind (json_get (mc_settings cfg) ''api_keys'') json_as_array"

definition validate_token :: "middleware_config \<Rightarrow> string \<Rightarrow> unit result" where
  "validate_token cfg token =
     (case api_keys cfg of
        Some keys \<Rightarrow>
          if keys \<noteq> [] then
            let matched = foldl (\<lambda>acc k. case json_as_str k of
                                           Some key \<Rightarrow> acc \<or> constant_time_eq key token
                                         | None \<Rightarrow> acc) False keys
            in if matched then Ok () else Err (Unauthorized ''Invalid token'')
          else Ok ()
      | None \<Rightarrow> Ok ())"

definition auth_header :: "request \<Rightarrow> string option" where
  "auth_header request =
     map_option snd (find (\<lambda>(k, _). eq_ignore_ascii_case k ''authorization'')
                       (rm_headers (rq_metadata request)))"

definition keys_configured :: "middleware_config \<Rightarrow> bool" where
  "keys_configured cfg = (case api_keys cfg of Some k \<Rightarrow> k \<noteq> [] | None \<Rightarrow> False)"

definition auth_handle_request :: "middleware_config \<Rightarrow> request \<Rightarrow> request result" where
  "auth_handle_request cfg request =
     (if \<not> mc_enabled cfg then Ok request
      else case auth_header request of
             Some value \<Rightarrow>
               if starts_with value ''Bearer ''
               then and_then (validate_token cfg (drop 7 value)) (\<lambda>_. Ok request)
               else if keys_configured cfg
               then Err (Unauthorized ''Invalid Authorization scheme: Bearer required'')
               else Ok request
           | None \<Rightarrow>
               if keys_configured cfg then Err (Unauthorized ''Missing Authorization header'')
               else Ok request)"

subsection \<open>Rate limiting (rate\_limit.rs)\<close>

definition MAX_TRACKED_CLIENTS :: nat where
  "MAX_TRACKED_CLIENTS = 10000"

type_synonym limits = "(string \<times> instant list) list"

definition retain_recent :: "instant \<Rightarrow> nat \<Rightarrow> instant list \<Rightarrow> instant list" where
  "retain_recent now window timestamps = filter (\<lambda>t. now - t \<le> window) timestamps"

text \<open>The whole critical section: eviction when the map is full, the key's own expiry, the verdict.\<close>

definition is_rate_limited ::
  "limits \<Rightarrow> instant \<Rightarrow> string \<Rightarrow> u32 \<Rightarrow> nat \<Rightarrow> bool \<times> limits" where
  "is_rate_limited limits now key limit window =
     (let limits1 =
            (if map_of limits key = None \<and> MAX_TRACKED_CLIENTS \<le> length limits
             then filter (\<lambda>(_, ts). ts \<noteq> [])
                    (map (\<lambda>(k, ts). (k, retain_recent now window ts)) limits)
             else limits);
          timestamps = (case map_of limits1 key of Some ts \<Rightarrow> ts | None \<Rightarrow> []);
          timestamps1 = retain_recent now window timestamps
      in if unat limit \<le> length timestamps1
         then (True, AList.update key timestamps1 limits1)
         else (False, AList.update key (timestamps1 @ [now]) limits1))"

definition NANOS_PER_SEC :: nat where
  "NANOS_PER_SEC = 1000000000"

definition ratelimit_handle_request ::
  "instant \<Rightarrow> middleware_config \<Rightarrow> limits \<Rightarrow> request \<Rightarrow> request result \<times> limits" where
  "ratelimit_handle_request now cfg limits request =
     (if \<not> mc_enabled cfg then (Ok request, limits)
      else
        let limit = (case Option.bind (json_get (mc_settings cfg) ''requests_per_window'') json_as_u64 of
                       Some n \<Rightarrow> ucast n | None \<Rightarrow> 100);
            window_secs = (case Option.bind (json_get (mc_settings cfg) ''window_secs'') json_as_u64 of
                             Some n \<Rightarrow> n | None \<Rightarrow> 60);
            key = (case rm_remote_addr (rq_metadata request) of Some a \<Rightarrow> a | None \<Rightarrow> ''global'')
        in case is_rate_limited limits now key limit (unat window_secs * NANOS_PER_SEC) of
             (True, limits') \<Rightarrow> (Err RateLimited, limits')
           | (False, limits') \<Rightarrow> (Ok request, limits'))"

subsection \<open>Logging (logging.rs)\<close>

text \<open>The log line is an output of its own beside the result.\<close>

datatype log_line = Incoming_Request string string | Outgoing_Response u16

definition logging_handle_request ::
  "middleware_config \<Rightarrow> request \<Rightarrow> request result \<times> log_line list" where
  "logging_handle_request cfg request =
     (if \<not> mc_enabled cfg then (Ok request, [])
      else (Ok request,
            [Incoming_Request
               (case rm_method (rq_metadata request) of Some m \<Rightarrow> m | None \<Rightarrow> ''UNKNOWN'')
               (case rm_path (rq_metadata request) of Some p \<Rightarrow> p | None \<Rightarrow> ''/'')]))"

definition logging_handle_response ::
  "middleware_config \<Rightarrow> response \<Rightarrow> response result \<times> log_line list" where
  "logging_handle_response cfg response =
     (if \<not> mc_enabled cfg then (Ok response, [])
      else (Ok response,
            [Outgoing_Response
               (case rs_status_code (rs_metadata response) of Some c \<Rightarrow> c | None \<Rightarrow> 0)]))"

subsection \<open>The chain (mod.rs)\<close>

datatype middleware =
    Logging middleware_config
  | Auth middleware_config
  | RateLimit middleware_config limits

text \<open>Dispatch through the trait object; the log lines are not part of what the chain returns.\<close>

fun mw_handle_request :: "instant \<Rightarrow> middleware \<Rightarrow> request \<Rightarrow> request result \<times> middleware" where
  "mw_handle_request now (Logging cfg) r = (fst (logging_handle_request cfg r), Logging cfg)"
| "mw_handle_request now (Auth cfg) r = (auth_handle_request cfg r, Auth cfg)"
| "mw_handle_request now (RateLimit cfg limits) r =
     (case ratelimit_handle_request now cfg limits r of (res, limits') \<Rightarrow> (res, RateLimit cfg limits'))"

fun mw_handle_response :: "middleware \<Rightarrow> response \<Rightarrow> response result" where
  "mw_handle_response (Logging cfg) resp = fst (logging_handle_response cfg resp)"
| "mw_handle_response (Auth cfg) resp = Ok resp"
| "mw_handle_response (RateLimit cfg limits) resp = Ok resp"

fun mw_config :: "middleware \<Rightarrow> middleware_config" where
  "mw_config (Logging cfg) = cfg"
| "mw_config (Auth cfg) = cfg"
| "mw_config (RateLimit cfg limits) = cfg"

type_synonym chain = "middleware list"

fun chain_handle_request :: "instant \<Rightarrow> chain \<Rightarrow> request \<Rightarrow> request result \<times> chain" where
  "chain_handle_request now [] r = (Ok r, [])"
| "chain_handle_request now (m # ms) r =
     (case mw_handle_request now m r of
        (Err e, m') \<Rightarrow> (Err e, m' # ms)
      | (Ok r', m') \<Rightarrow> map_prod id (Cons m') (chain_handle_request now ms r'))"

fun run_responses :: "chain \<Rightarrow> response \<Rightarrow> response result" where
  "run_responses [] resp = Ok resp"
| "run_responses (m # ms) resp = and_then (mw_handle_response m resp) (run_responses ms)"

definition chain_handle_response :: "chain \<Rightarrow> response \<Rightarrow> response result" where
  "chain_handle_response ms resp = run_responses (rev ms) resp"

fun rate_limit_window_secs :: "chain \<Rightarrow> u64 option" where
  "rate_limit_window_secs [] = None"
| "rate_limit_window_secs (m # ms) =
     (case (if \<not> mc_enabled (mw_config m) then None
            else Option.bind (json_get (mc_settings (mw_config m)) ''window_secs'') json_as_u64) of
        Some n \<Rightarrow> Some n
      | None \<Rightarrow> rate_limit_window_secs ms)"

text \<open>\<open>build_middleware_chain\<close> of \<open>src/core/gateway.rs\<close>.\<close>

definition build_middleware_chain :: "middleware_section_config \<Rightarrow> chain" where
  "build_middleware_chain config =
     [Logging \<lparr>mc_enabled = lg_enabled (ms_logging config), mc_settings = JObject []\<rparr>,
      Auth \<lparr>mc_enabled = au_enabled (ms_auth config),
            mc_settings = JObject [(''api_keys'', JArray (map JString (au_api_keys (ms_auth config))))]\<rparr>,
      RateLimit \<lparr>mc_enabled = rl_enabled (ms_rate_limit config),
                 mc_settings = JObject
                   [(''requests_per_window'', JNumber (uint (rl_requests_per_window (ms_rate_limit config)))),
                    (''window_secs'', JNumber (uint (rl_window_secs (ms_rate_limit config))))]\<rparr> []]"

subsection \<open>Token comparison and authentication\<close>

lemma fold_or_xor_eq_0:
  "foldl (\<lambda>acc (x, y). acc OR (x XOR y)) (acc :: u8) zs = 0 \<longleftrightarrow> acc = 0 \<and> (\<forall>(x, y) \<in> set zs. x = y)"
proof (induction zs arbitrary: acc)
  case Nil
  show ?case by simp
next
  case (Cons z zs)
  have "acc OR (fst z XOR snd z) = 0 \<longleftrightarrow> acc = 0 \<and> fst z = snd z"
    by (auto simp: bit_eq_iff bit_simps)
  then show ?case using Cons by (cases z) auto
qed

text \<open>
  The comparison without early exit, an accumulation of the differences of all byte pairs, is
  equality of the two strings.
\<close>

lemma constant_time_eq_iff [simp]: "constant_time_eq a b \<longleftrightarrow> a = b"
proof (cases "length a = length b")
  case True
  then have "constant_time_eq a b \<longleftrightarrow> (\<forall>(x, y) \<in> set (zip (as_bytes a) (as_bytes b)). x = y)"
    by (simp add: constant_time_eq_def fold_or_xor_eq_0)
  also have "\<dots> \<longleftrightarrow> as_bytes a = as_bytes b"
    using True by (auto simp: set_zip list_eq_iff_nth_eq)
  finally show ?thesis by simp
next
  case False
  then show ?thesis by (auto simp: constant_time_eq_def)
qed

lemma fold_matched:
  "foldl (\<lambda>acc k. case json_as_str k of Some key \<Rightarrow> acc \<or> constant_time_eq key token | None \<Rightarrow> acc)
     acc keys \<longleftrightarrow> acc \<or> JString token \<in> set keys"
proof (induction keys arbitrary: acc)
  case Nil
  show ?case by simp
next
  case (Cons k keys)
  have "(case json_as_str k of Some key \<Rightarrow> acc \<or> constant_time_eq key token | None \<Rightarrow> acc)
     \<longleftrightarrow> acc \<or> k = JString token"
    by (cases k) auto
  then show ?case by (simp only: foldl.simps Cons.IH) auto
qed

lemma validate_token_eq:
  assumes "api_keys cfg = Some keys" "keys \<noteq> []"
  shows "validate_token cfg token =
    (if JString token \<in> set keys then Ok () else Err (Unauthorized ''Invalid token''))"
  using assms by (simp add: validate_token_def fold_matched)

lemma auth_decision:
  assumes "mc_enabled cfg" "api_keys cfg = Some keys" "keys \<noteq> []"
  shows "auth_handle_request cfg request =
    (if \<exists>key. JString key \<in> set keys \<and> auth_header request = Some (''Bearer '' @ key)
     then Ok request
     else Err (Unauthorized
       (case auth_header request of
          None \<Rightarrow> ''Missing Authorization header''
        | Some v \<Rightarrow> if starts_with v ''Bearer '' then ''Invalid token''
                    else ''Invalid Authorization scheme: Bearer required'')))"
proof -
  have conf: "keys_configured cfg" using assms by (simp add: keys_configured_def)
  show ?thesis
  proof (cases "auth_header request")
    case None
    with assms conf show ?thesis by (simp add: auth_handle_request_def)
  next
    case (Some v)
    show ?thesis
    proof (cases "starts_with v ''Bearer ''")
      case True
      then obtain token where "v = ''Bearer '' @ token" by (auto simp: prefix_def)
      with Some assms conf show ?thesis
        by (simp add: auth_handle_request_def validate_token_eq)
    next
      case False
      with Some assms conf show ?thesis by (auto simp: auth_handle_request_def prefix_def)
    qed
  qed
qed

text \<open>
  C15: with authentication enabled and keys configured, a request passes exactly when its first
  Authorization header is the word Bearer, a space and one of the configured keys; it then passes
  unchanged. Every other request is answered with an Unauthorized error that names the cause: no
  other scheme, no missing header and no prefix of a key gets through.
\<close>

theorem auth_handle_request_eq:
  assumes "mc_enabled cfg" "api_keys cfg = Some keys" "keys \<noteq> []"
  shows "auth_handle_request cfg request =
    (if \<exists>key. JString key \<in> set keys \<and> auth_header request = Some (''Bearer '' @ key)
     then Ok request
     else Err (Unauthorized
       (case auth_header request of
          None \<Rightarrow> ''Missing Authorization header''
        | Some v \<Rightarrow> if starts_with v ''Bearer '' then ''Invalid token''
                    else ''Invalid Authorization scheme: Bearer required'')))"
  using assms by (rule auth_decision)

theorem auth_handle_request_eq_witness:
  "auth_handle_request
     \<lparr>mc_enabled = True, mc_settings = JObject [(''api_keys'', JArray [JString ''s3cret''])]\<rparr>
     \<lparr>rq_data = [], rq_metadata = \<lparr>rm_protocol = ''http'', rm_method = None, rm_path = None,
        rm_headers = [(''authorization'', ''Bearer s3'')], rm_timeout = None, rm_remote_addr = None\<rparr>\<rparr>
   = Err (Unauthorized ''Invalid token'')"
  by (subst auth_handle_request_eq [where keys = "[JString ''s3cret'']"])
    (simp_all add: api_keys_def auth_header_def eq_ignore_ascii_case_def)

subsection \<open>The rate limiter refines a history of accepted requests\<close>

text \<open>
  The abstract limiter remembers every accepted request and counts those of the client inside the
  window. The code's map forgets: it drops old timestamps of the client at hand, and those of all
  clients when it is full.
\<close>

type_synonym history = "(instant \<times> string) list"

definition accepted_in :: "history \<Rightarrow> string \<Rightarrow> instant list" where
  "accepted_in hist key = map fst (filter (\<lambda>(_, k). k = key) hist)"

definition spec_limited :: "history \<Rightarrow> instant \<Rightarrow> string \<Rightarrow> u32 \<Rightarrow> nat \<Rightarrow> bool" where
  "spec_limited hist now key limit window \<longleftrightarrow>
     unat limit \<le> length (retain_recent now window (accepted_in hist key))"

fun spec_run :: "u32 \<Rightarrow> nat \<Rightarrow> history \<Rightarrow> history \<Rightarrow> history" where
  "spec_run limit window hist [] = hist"
| "spec_run limit window hist ((now, key) # es) =
     spec_run limit window
       (if spec_limited hist now key limit window then hist else hist @ [(now, key)]) es"

text \<open>The code's limiter on a sequence of calls, with the calls it let through.\<close>

fun limiter_run :: "u32 \<Rightarrow> nat \<Rightarrow> limits \<Rightarrow> history \<Rightarrow> history \<times> limits" where
  "limiter_run limit window limits [] = ([], limits)"
| "limiter_run limit window limits ((now, key) # es) =
     (case is_rate_limited limits now key limit window of
        (True, limits') \<Rightarrow> limiter_run limit window limits' es
      | (False, limits') \<Rightarrow> map_prod (Cons (now, key)) id (limiter_run limit window limits' es))"

definition tracked :: "limits \<Rightarrow> string \<Rightarrow> instant list" where
  "tracked limits key = (case map_of limits key of Some ts \<Rightarrow> ts | None \<Rightarrow> [])"

definition evict :: "instant \<Rightarrow> nat \<Rightarrow> string \<Rightarrow> limits \<Rightarrow> limits" where
  "evict now window key limits =
     (if map_of limits key = None \<and> MAX_TRACKED_CLIENTS \<le> length limits
      then filter (\<lambda>(_, ts). ts \<noteq> []) (map (\<lambda>(k, ts). (k, retain_recent now window ts)) limits)
      else limits)"

definition refines :: "nat \<Rightarrow> instant \<Rightarrow> limits \<Rightarrow> history \<Rightarrow> bool" where
  "refines window now limits hist \<longleftrightarrow> distinct (map fst limits) \<and>
     (\<forall>key. retain_recent now window (tracked limits key) = retain_recent now window (accepted_in hist key))"

lemma is_rate_limited_eq:
  "is_rate_limited limits now key limit window =
     (let limits1 = evict now window key limits;
          ts = retain_recent now window (tracked limits1 key);
          blocked = unat limit \<le> length ts
      in (blocked, AList.update key (if blocked then ts else ts @ [now]) limits1))"
  by (simp add: is_rate_limited_def evict_def tracked_def Let_def)

lemma retain_recent_twice [simp]:
  "now \<le> now' \<Longrightarrow> retain_recent now' window (retain_recent now window ts) = retain_recent now' window ts"
  by (auto simp: retain_recent_def intro!: filter_cong)

lemma retain_recent_append [simp]:
  "retain_recent now window (xs @ ys) = retain_recent now window xs @ retain_recent now window ys"
  by (simp add: retain_recent_def)

lemma retain_recent_Nil [simp]: "retain_recent now window [] = []"
  by (simp add: retain_recent_def)

lemma retain_recent_now [simp]: "retain_recent now window [now] = [now]"
  by (simp add: retain_recent_def)

lemma tracked_update [simp]:
  "tracked (AList.update key ts limits) key' = (if key' = key then ts else tracked limits key')"
  by (simp add: tracked_def update_conv')

lemma accepted_in_append [simp]:
  "accepted_in (hist @ [(now, k)]) key = accepted_in hist key @ (if k = key then [now] else [])"
  by (simp add: accepted_in_def)

lemma keys_retained_filter:
  "map fst (filter (\<lambda>(_, ts). ts \<noteq> []) (map (\<lambda>(k, ts). (k, g ts)) m))
     = map fst (filter (\<lambda>(_, ts). g ts \<noteq> []) m)"
  by (induction m) auto

lemma tracked_retained:
  assumes "distinct (map fst m)"
  shows "tracked (filter (\<lambda>(_, ts). ts \<noteq> []) (map (\<lambda>(k, ts). (k, retain_recent now window ts)) m)) key
    = retain_recent now window (tracked m key)"
  using assms
proof (induction m)
  case Nil
  show ?case by (simp add: tracked_def retain_recent_def)
next
  case (Cons p m)
  obtain k ts where p: "p = (k, ts)" by force
  have "tracked m k = []" using Cons.prems p by (simp add: tracked_def map_of_eq_None_iff[THEN iffD2])
  then show ?case using Cons p
    by (auto simp: tracked_def retain_recent_def split: if_splits)
qed

lemma evict_distinct [inv_intros]:
  "distinct (map fst limits) \<Longrightarrow> distinct (map fst (evict now window key limits))"
  by (auto simp: evict_def keys_retained_filter distinct_map_filter)

lemma evict_keys: "fst ` set (evict now window key limits) \<subseteq> fst ` set limits"
proof (cases "map_of limits key = None \<and> MAX_TRACKED_CLIENTS \<le> length limits")
  case True
  then have "map fst (evict now window key limits)
      = map fst (filter (\<lambda>(_, ts). retain_recent now window ts \<noteq> []) limits)"
    by (simp add: evict_def keys_retained_filter)
  then have "fst ` set (evict now window key limits)
      = fst ` set (filter (\<lambda>(_, ts). retain_recent now window ts \<noteq> []) limits)"
    by (metis set_map)
  then show ?thesis by auto
next
  case False
  then show ?thesis by (auto simp: evict_def)
qed

lemma tracked_evict:
  "distinct (map fst limits) \<Longrightarrow>
    retain_recent now window (tracked (evict now window key limits) key')
      = retain_recent now window (tracked limits key')"
  by (simp add: evict_def tracked_retained)

lemma refines_later:
  assumes "refines window now limits hist" "now \<le> now'"
  shows "refines window now' limits hist"
  using assms unfolding refines_def by (metis retain_recent_twice)

text \<open>One call: the verdict is the abstract one and the refinement is kept.\<close>

lemma is_rate_limited_refines:
  assumes "refines window now limits hist"
  shows "fst (is_rate_limited limits now key limit window) = spec_limited hist now key limit window"
    and "refines window now (snd (is_rate_limited limits now key limit window))
           (if spec_limited hist now key limit window then hist else hist @ [(now, key)])"
proof -
  have d: "distinct (map fst limits)"
    and eq: "\<And>k. retain_recent now window (tracked limits k) = retain_recent now window (accepted_in hist k)"
    using assms by (auto simp: refines_def)
  show "fst (is_rate_limited limits now key limit window) = spec_limited hist now key limit window"
    by (simp add: is_rate_limited_eq spec_limited_def Let_def tracked_evict d eq)
  show "refines window now (snd (is_rate_limited limits now key limit window))
          (if spec_limited hist now key limit window then hist else hist @ [(now, key)])"
    by (simp add: refines_def is_rate_limited_eq spec_limited_def Let_def tracked_evict d eq
        distinct_update evict_distinct)
qed

lemma refines_empty: "refines window now [] []"
  by (simp add: refines_def tracked_def accepted_in_def)

lemma limiter_run_refines:
  assumes "refines window now limits hist" "sorted (now # map fst es)"
  shows "hist @ fst (limiter_run limit window limits es) = spec_run limit window hist es"
  using assms
proof (induction es arbitrary: now limits hist)
  case Nil
  show ?case by simp
next
  case (Cons e es)
  obtain t k where e: "e = (t, k)" by force
  have "refines window t limits hist"
    using Cons.prems e by (auto intro: refines_later)
  note step = is_rate_limited_refines [OF this, of k limit]
  obtain b limits' where call: "is_rate_limited limits t k limit window = (b, limits')" by force
  have "refines window t limits' (if b then hist else hist @ [(t, k)])"
    using step call by simp
  from Cons.IH [OF this] have
    "(if b then hist else hist @ [(t, k)]) @ fst (limiter_run limit window limits' es)
      = spec_run limit window (if b then hist else hist @ [(t, k)]) es"
    using Cons.prems e by simp
  then show ?case using call step e by (cases b) (simp_all add: map_prod_def split_beta)
qed

text \<open>
  C17: on every sequence of calls at non-decreasing times, the rate limiter that expires and evicts
  timestamps lets through exactly the calls the abstract limiter lets through that forgets nothing:
  eviction, even of all clients, never changes a verdict.
\<close>

theorem limiter_refines_history:
  assumes "sorted (map fst es)"
  shows "fst (limiter_run limit window [] es) = spec_run limit window [] es"
  using limiter_run_refines [OF refines_empty, of 0 es] assms by simp

theorem limiter_refines_history_witness:
  "fst (limiter_run 1 10 [] [(0, ''a''), (5, ''a''), (6, ''b''), (11, ''a'')])
     = spec_run 1 10 [] [(0, ''a''), (5, ''a''), (6, ''b''), (11, ''a'')]
   \<and> spec_run 1 10 [] [(0, ''a''), (5, ''a''), (6, ''b''), (11, ''a'')]
     = [(0, ''a''), (6, ''b''), (11, ''a'')]"
  using limiter_refines_history [of "[(0, ''a''), (5, ''a''), (6, ''b''), (11, ''a'')]" 1 10]
  by (simp add: spec_limited_def accepted_in_def retain_recent_def)

subsection \<open>The sliding window\<close>

definition in_window :: "history \<Rightarrow> string \<Rightarrow> instant \<Rightarrow> nat \<Rightarrow> history" where
  "in_window hist key a window = filter (\<lambda>(t, k). k = key \<and> a \<le> t \<and> t \<le> a + window) hist"

lemma in_window_le_recent:
  assumes "\<forall>(t, k) \<in> set hist. t \<le> now" "a \<le> now" "now \<le> a + window"
  shows "length (in_window hist key a window) \<le> length (retain_recent now window (accepted_in hist key))"
  using assms by (induction hist) (auto simp: in_window_def retain_recent_def accepted_in_def)

lemma spec_run_window:
  assumes "sorted (now # map fst es)" "\<forall>(t, k) \<in> set hist. t \<le> now"
    "length (in_window hist key a window) \<le> unat limit"
  shows "length (in_window (spec_run limit window hist es) key a window) \<le> unat limit"
  using assms
proof (induction es arbitrary: now hist)
  case Nil
  then show ?case by simp
next
  case (Cons e es)
  obtain t k where e: "e = (t, k)" by force
  let ?hist = "if spec_limited hist t k limit window then hist else hist @ [(t, k)]"
  have earlier: "\<forall>(t', k) \<in> set hist. t' \<le> t" using Cons.prems e by fastforce
  have "length (in_window ?hist key a window) \<le> unat limit"
  proof (cases "\<not> spec_limited hist t k limit window \<and> k = key \<and> a \<le> t \<and> t \<le> a + window")
    case True
    then show ?thesis using in_window_le_recent [OF earlier, of a window key]
      by (auto simp: in_window_def spec_limited_def)
  next
    case False
    then show ?thesis using Cons.prems(3) by (auto simp: in_window_def)
  qed
  moreover have "\<forall>(t', k) \<in> set ?hist. t' \<le> t" using earlier by auto
  ultimately show ?case using Cons.IH [of t ?hist] Cons.prems(1) e by simp
qed

lemma limiter_run_window:
  assumes "sorted (map fst es)"
  shows "length (in_window (fst (limiter_run limit window [] es)) key a window) \<le> unat limit"
proof -
  have "fst (limiter_run limit window [] es) = spec_run limit window [] es"
    using limiter_run_refines [OF refines_empty, of 0 es] assms by simp
  then show ?thesis using spec_run_window [of 0 es "[]" key a window limit] assms
    by (simp add: in_window_def)
qed

text \<open>
  C13: whatever the traffic, in every closed interval as long as the window a client gets at most
  the configured number of requests through; the limiter is a true sliding window, not one that
  resets at window boundaries.
\<close>

theorem sliding_window_bound:
  assumes "sorted (map fst es)"
  shows "length (in_window (fst (limiter_run limit window [] es)) key a window) \<le> unat limit"
  using assms by (rule limiter_run_window)

theorem sliding_window_bound_witness:
  "length (in_window (fst (limiter_run 2 10 [] [(0, ''a''), (9, ''a''), (10, ''a''), (11, ''a'')]))
     ''a'' 5 10) \<le> unat (2 :: u32)"
  by (rule sliding_window_bound) simp

text \<open>
  The number of clients the limiter remembers after a call. A known client adds none; a new one
  adds one while there is room; when the map is full, only the clients with a request in the window
  stay beside the new one. The threshold of 10,000 is a trigger for eviction and not a hard bound.
\<close>

lemma tracked_clients_count:
  "length (snd (is_rate_limited limits now key limit window)) =
    (if key \<in> fst ` set limits then length limits
     else if length limits < MAX_TRACKED_CLIENTS then Suc (length limits)
     else Suc (length (filter (\<lambda>(_, ts). retain_recent now window ts \<noteq> []) limits)))"
proof -
  have len: "length (AList.update k v m) = (if k \<in> fst ` set m then length m else Suc (length m))"
    for k v and m :: limits
    by (induction m) auto
  have "length (filter (\<lambda>(_, ts). ts \<noteq> []) (map (\<lambda>(k, ts). (k, retain_recent now window ts)) limits))
    = length (filter (\<lambda>(_, ts). retain_recent now window ts \<noteq> []) limits)"
    by (induction limits) auto
  moreover have "key \<notin> fst ` set limits \<Longrightarrow> key \<notin> fst ` set (evict now window key limits)"
    using evict_keys by blast
  moreover have "map_of limits key = None \<longleftrightarrow> key \<notin> fst ` set limits"
    by (simp add: map_of_eq_None_iff)
  ultimately show ?thesis
    by (simp add: is_rate_limited_eq Let_def len evict_def)
qed

subsection \<open>The chain and its interface\<close>

text \<open>
  What the chain relies on: handlers are run one after the other and the first error ends the run.
  For handlers that return what they were given, which all three middlewares do, a run returns its
  input or an error.
\<close>

locale middleware_chain =
  fixes step :: "'m \<Rightarrow> 'x \<Rightarrow> 'x result"
    and run :: "'m list \<Rightarrow> 'x \<Rightarrow> 'x result"
  assumes run_Nil: "run [] x = Ok x"
    and run_Cons: "run (m # ms) x = and_then (step m x) (run ms)"
    and transparent: "step m x = Ok y \<Longrightarrow> y = x"
begin

lemma run_transparent: "run ms x = Ok y \<Longrightarrow> y = x"
  by (induction ms arbitrary: x) (auto simp: run_Nil run_Cons dest: transparent)

lemma run_Ok_iff: "run ms x = Ok x \<longleftrightarrow> (\<forall>m \<in> set ms. step m x = Ok x)"
  by (induction ms) (auto simp: run_Nil run_Cons dest: transparent)

lemma run_is_ok_iff: "is_ok (run ms x) \<longleftrightarrow> (\<forall>m \<in> set ms. step m x = Ok x)"
  using run_Ok_iff run_transparent unfolding is_ok_iff by metis

lemma run_append: "run (ms @ ns) x = and_then (run ms x) (run ns)"
proof (induction ms arbitrary: x)
  case Nil
  show ?case by (simp add: run_Nil)
next
  case (Cons m ms)
  then show ?case by (cases "step m x") (simp_all add: run_Cons)
qed

lemma run_first_error:
  assumes "\<forall>m \<in> set ms. step m x = Ok x" "step m x = Err e"
  shows "run (ms @ m # ns) x = Err e"
proof -
  have "run ms x = Ok x" using assms(1) run_Ok_iff by simp
  then show ?thesis using assms(2) by (simp add: run_append run_Cons)
qed

end

lemma validate_token_cases:
  "auth_handle_request cfg r = Ok r' \<Longrightarrow> r' = r"
  by (auto simp: auth_handle_request_def split: if_splits option.splits)

lemma ratelimit_transparent: "fst (ratelimit_handle_request now cfg limits r) = Ok r' \<Longrightarrow> r' = r"
  by (auto simp: ratelimit_handle_request_def Let_def split: if_splits prod.splits bool.splits)

lemma mw_transparent: "fst (mw_handle_request now m r) = Ok r' \<Longrightarrow> r' = r"
  by (cases m) (auto simp: logging_handle_request_def split_beta
      dest: validate_token_cases ratelimit_transparent split: if_splits)

interpretation request_chain: middleware_chain
  "\<lambda>m r. fst (mw_handle_request now m r)" "\<lambda>ms r. fst (chain_handle_request now ms r)" for now
proof unfold_locales
  fix m ms and r :: request
  show "fst (chain_handle_request now (m # ms) r) =
    and_then (fst (mw_handle_request now m r)) (\<lambda>r. fst (chain_handle_request now ms r))"
    by (cases "mw_handle_request now m r"; cases "fst (mw_handle_request now m r)")
      (auto simp: map_prod_def split_beta)
qed (auto dest: mw_transparent)

interpretation response_chain: middleware_chain mw_handle_response run_responses
proof unfold_locales
  fix m r r'
  show "mw_handle_response m r = Ok r' \<Longrightarrow> r' = r"
    by (cases m) (auto simp: logging_handle_response_def split: if_splits)
qed simp_all

lemma mw_handle_response_Ok [simp]: "mw_handle_response m r = Ok r"
  by (cases m) (simp_all add: logging_handle_response_def)

text \<open>
  The built chain, one handler after the other: authentication decides first, and the limiter is
  consulted, and changed, only for a request that authentication let through.
\<close>

lemma chain_built:
  assumes "chain = [Logging lc, Auth ac, RateLimit rc limits]"
  shows "chain_handle_request now chain r =
    (case auth_handle_request ac r of
       Err e \<Rightarrow> (Err e, chain)
     | Ok _ \<Rightarrow> (case ratelimit_handle_request now rc limits r of
                  (res, limits') \<Rightarrow> (res, [Logging lc, Auth ac, RateLimit rc limits'])))"
proof (cases "auth_handle_request ac r")
  case (Err e)
  then show ?thesis using assms by (simp add: logging_handle_request_def)
next
  case (Ok r')
  then have "r' = r" by (rule validate_token_cases)
  obtain res limits' where "ratelimit_handle_request now rc limits r = (res, limits')" by force
  with Ok \<open>r' = r\<close> show ?thesis using assms by (cases res) (simp_all add: logging_handle_request_def)
qed

text \<open>The chain built from a configuration, at any state of its limiter.\<close>

definition chain_with :: "middleware_section_config \<Rightarrow> limits \<Rightarrow> chain" where
  "chain_with config limits = take 2 (build_middleware_chain config) @
     [RateLimit (mw_config (build_middleware_chain config ! 2)) limits]"

lemma build_middleware_chain_with: "build_middleware_chain config = chain_with config []"
  by (simp add: chain_with_def build_middleware_chain_def)

definition client_key :: "request \<Rightarrow> string" where
  "client_key r = (case rm_remote_addr (rq_metadata r) of Some a \<Rightarrow> a | None \<Rightarrow> ''global'')"

definition authorised :: "middleware_section_config \<Rightarrow> request \<Rightarrow> bool" where
  "authorised config r \<longleftrightarrow> (au_enabled (ms_auth config) \<and> au_api_keys (ms_auth config) \<noteq> [] \<longrightarrow>
     (\<exists>key \<in> set (au_api_keys (ms_auth config)). auth_header r = Some (''Bearer '' @ key)))"

lemma json_as_u64_uint32 [simp]: "json_as_u64 (JNumber (uint (n :: u32))) = Some (ucast n)"
proof -
  have "uint n < 4294967296" using uint_lt2p [of n] by simp
  then show ?thesis by simp
qed

lemma json_as_u64_uint64 [simp]: "json_as_u64 (JNumber (uint (n :: u64))) = Some n"
proof -
  have "uint n < 18446744073709551616" using uint_lt2p [of n] by simp
  then show ?thesis by simp
qed

lemma ucast_up_down32 [simp]: "(ucast (ucast (n :: u32) :: u64) :: u32) = n"
  by (rule ucast_up_ucast_id) (simp add: is_up)

lemma auth_handle_request_open:
  assumes "\<not> (keys_configured cfg \<and> mc_enabled cfg)"
  shows "auth_handle_request cfg r = Ok r"
  using assms by (auto simp: auth_handle_request_def keys_configured_def validate_token_def
      split: option.splits)

lemma auth_built:
  assumes "cfg = mw_config (build_middleware_chain config ! 1)"
  shows "auth_handle_request cfg r = Ok r \<longleftrightarrow> authorised config r"
proof (cases "keys_configured cfg \<and> mc_enabled cfg")
  case True
  have keys: "api_keys cfg = Some (map JString (au_api_keys (ms_auth config)))"
    and enabled: "mc_enabled cfg = au_enabled (ms_auth config)"
    using assms by (simp_all add: build_middleware_chain_def api_keys_def)
  then have "au_api_keys (ms_auth config) \<noteq> []" using True by (auto simp: keys_configured_def)
  then show ?thesis using True keys enabled
    by (auto simp: auth_decision authorised_def)
next
  case False
  then have "auth_handle_request cfg r = Ok r"
    by (rule auth_handle_request_open)
  moreover have "authorised config r"
    using False assms by (auto simp: authorised_def keys_configured_def api_keys_def build_middleware_chain_def)
  ultimately show ?thesis by simp
qed

definition limiter_verdict ::
  "middleware_section_config \<Rightarrow> limits \<Rightarrow> instant \<Rightarrow> request \<Rightarrow> bool \<times> limits" where
  "limiter_verdict config limits now r =
     (if \<not> rl_enabled (ms_rate_limit config) then (False, limits)
      else is_rate_limited limits now (client_key r) (rl_requests_per_window (ms_rate_limit config))
             (unat (rl_window_secs (ms_rate_limit config)) * NANOS_PER_SEC))"

lemma ratelimit_built:
  assumes "cfg = mw_config (build_middleware_chain config ! 2)"
  shows "ratelimit_handle_request now cfg limits r =
    (case limiter_verdict config limits now r of (b, limits') \<Rightarrow> (if b then Err RateLimited else Ok r, limits'))"
  using assms
  by (simp add: ratelimit_handle_request_def build_middleware_chain_def limiter_verdict_def client_key_def
      Let_def split_beta del: json_as_u64.simps split: bool.splits)

lemma chain_with_cases:
  "chain_handle_request now (chain_with config limits) r =
     (if authorised config r
      then (case limiter_verdict config limits now r of
              (b, limits') \<Rightarrow> (if b then Err RateLimited else Ok r, chain_with config limits'))
      else (auth_handle_request (mw_config (build_middleware_chain config ! 1)) r, chain_with config limits))"
proof -
  let ?ac = "mw_config (build_middleware_chain config ! 1)"
  let ?rc = "mw_config (build_middleware_chain config ! 2)"
  obtain lc where built: "\<And>l. chain_with config l = [Logging lc, Auth ?ac, RateLimit ?rc l]"
    by (simp add: chain_with_def build_middleware_chain_def)
  have auth: "auth_handle_request ?ac r = Ok r \<longleftrightarrow> authorised config r" by (rule auth_built) simp
  have "auth_handle_request ?ac r = Ok r' \<Longrightarrow> authorised config r" for r'
    using auth validate_token_cases by metis
  then show ?thesis
    using chain_built [OF built [of limits]] auth built
    by (cases "auth_handle_request ?ac r") (auto simp: ratelimit_built split_beta)
qed

lemma unauthorised_error:
  assumes "\<not> authorised config r"
  shows "\<exists>m. auth_handle_request (mw_config (build_middleware_chain config ! 1)) r = Err (Unauthorized m)"
proof -
  let ?cfg = "mw_config (build_middleware_chain config ! 1)"
  have "api_keys ?cfg = Some (map JString (au_api_keys (ms_auth config)))" "mc_enabled ?cfg"
    "map JString (au_api_keys (ms_auth config)) \<noteq> []"
    using assms by (simp_all add: authorised_def build_middleware_chain_def api_keys_def)
  then have "\<exists>m. auth_handle_request ?cfg r = (if authorised config r then Ok r else Err (Unauthorized m))"
    using assms by (subst auth_decision) (auto simp: authorised_def)
  then show ?thesis using assms by auto
qed

lemma chain_handle_response_Ok [simp]: "chain_handle_response ms resp = Ok resp"
  by (simp add: chain_handle_response_def response_chain.run_Ok_iff)

lemma rate_limit_window_secs_chain_with [simp]:
  "rate_limit_window_secs (chain_with config limits) =
     (if rl_enabled (ms_rate_limit config) then Some (rl_window_secs (ms_rate_limit config)) else None)"
  by (simp add: chain_with_def build_middleware_chain_def del: json_as_u64.simps)

lemma chain_admits_iff':
  "fst (chain_handle_request now (chain_with config limits) r) = Ok r' \<longleftrightarrow>
     r' = r \<and> authorised config r \<and> \<not> fst (limiter_verdict config limits now r)"
proof (cases "authorised config r")
  case True
  then show ?thesis by (auto simp: chain_with_cases split_beta)
next
  case False
  then show ?thesis using unauthorised_error [OF False] by (auto simp: chain_with_cases)
qed

text \<open>
  C19: the chain the gateway builds from its configuration admits a request exactly when it carries
  one of the configured keys (if there are any and authentication is on) and the limiter has room
  for its client; an admitted request comes out as it went in.
\<close>

theorem chain_admits_iff:
  "fst (chain_handle_request now (chain_with config limits) r) = Ok r' \<longleftrightarrow>
     r' = r \<and> authorised config r \<and> \<not> fst (limiter_verdict config limits now r)"
  by (rule chain_admits_iff')

text \<open>
  A request that authentication refuses gets an Unauthorized error and uses up nothing of
  anybody's rate limit: the whole chain, the limiter's map included, is as before.
\<close>

lemma unauthorised_leaves_limiter:
  assumes "\<not> authorised config r"
  shows "\<exists>m. chain_handle_request now (chain_with config limits) r
    = (Err (Unauthorized m), chain_with config limits)"
  using assms unauthorised_error [OF assms] by (simp add: chain_with_cases)

end
