(* ===== verification/Float64.thy ===== *)
theory Float64
  imports Complex_Main "HOL-Library.Log_Nat"
begin

section \<open>Double precision arithmetic\<close>

text \<open>
  What the metrics use of \<open>f64\<close>: values are rational numbers, and every operation is the exact one
  followed by rounding to the nearest number with a 53-bit significand, ties to even. The values
  that occur (counts, latencies, quotients of them) are zero or lie far inside the range of normal
  numbers, so exponents are not bounded.
\<close>

definition round_half_even :: "rat \<Rightarrow> int" where
  "round_half_even q =
     (let f = \<lfloor>q\<rfloor>; d = q - of_int f
      in if d < 1 / 2 then f else if 1 / 2 < d then f + 1 else if even f then f else f + 1)"

text \<open>The exponent of the last place of a positive number.\<close>

definition f64_exp :: "rat \<Rightarrow> int" where
  "f64_exp q =
     (let (a, b) = quotient_of q; k = bitlen a - bitlen b
      in if 2 powi k \<le> q then k - 52 else k - 53)"

definition f64_round :: "rat \<Rightarrow> rat" where
  "f64_round q =
     (if q \<le> 0 then 0 else of_int (round_half_even (q * 2 powi (- f64_exp q))) * 2 powi f64_exp q)"

definition f64_mult :: "rat \<Rightarrow> rat \<Rightarrow> rat" where
  "f64_mult a b = f64_round (a * b)"

definition f64_div :: "rat \<Rightarrow> rat \<Rightarrow> rat" where
  "f64_div a b = f64_round (a / b)"

definition f64_of_nat :: "nat \<Rightarrow> rat" where
  "f64_of_nat n = f64_round (of_nat n)"

subsection \<open>Rounding\<close>

lemma round_half_even_error: "\<bar>of_int (round_half_even q) - q\<bar> \<le> 1 / 2"
proof -
  have "of_int \<lfloor>q\<rfloor> \<le> q" "q < of_int \<lfloor>q\<rfloor> + 1" by linarith+
  then show ?thesis unfolding round_half_even_def Let_def abs_if by (simp split: if_splits) linarith
qed

lemma round_half_even_near:
  assumes "\<bar>of_int n - q\<bar> < 1 / 2"
  shows "round_half_even q = n"
proof -
  have "\<bar>of_int (round_half_even q) - of_int n :: rat\<bar> < 1"
    using assms round_half_even_error [of q] by linarith
  then show ?thesis by linarith
qed

lemma f64_exp_bounds:
  assumes "0 < q"
  shows "2 powi (f64_exp q + 52) \<le> q" "q < 2 powi (f64_exp q + 53)"
proof -
  obtain a b where ab: "quotient_of q = (a, b)" by force
  then have q: "q = of_int a / of_int b" and b: "0 < b"
    by (simp_all add: quotient_of_div quotient_of_denom_pos)
  then have a: "0 < a" using assms by (simp add: zero_less_divide_iff)
  have pow: "(2 :: rat) powi bitlen x = of_int (2 ^ nat (bitlen x))"
    "(2 :: rat) powi (bitlen x - 1) = of_int (2 ^ nat (bitlen x - 1))" if "0 < x" for x
    using bitlen_nonneg [of x] that bitlen_eq_zero_iff [of x]
    by (simp_all add: power_int_nonneg_exp)
  have bounds: "2 powi (bitlen x - 1) \<le> (of_int x :: rat)" "(of_int x :: rat) < 2 powi bitlen x"
    if "0 < x" for x
    using bitlen_bounds [OF that] pow [OF that] by (simp_all only: of_int_le_iff of_int_less_iff)
  let ?k = "bitlen a - bitlen b"
  have "q < 2 powi bitlen a / 2 powi (bitlen b - 1)"
    unfolding q using bounds [OF a] bounds [OF b] a b
    by (intro frac_less) auto
  also have "\<dots> = 2 powi (?k + 1)" by (simp add: power_int_diff [symmetric] algebra_simps)
  finally have upper: "q < 2 powi (?k + 1)" .
  have "2 powi (?k - 1) = (2 :: rat) powi (bitlen a - 1) / 2 powi bitlen b"
    by (simp add: power_int_diff [symmetric] algebra_simps)
  also have "\<dots> \<le> q"
    unfolding q using bounds [OF a] bounds [OF b] a b by (intro frac_le) auto
  finally have lower: "2 powi (?k - 1) \<le> q" .
  show "2 powi (f64_exp q + 52) \<le> q" "q < 2 powi (f64_exp q + 53)"
    using upper lower by (auto simp: f64_exp_def ab Let_def algebra_simps)
qed

lemma f64_round_error:
  assumes "0 < q"
  shows "\<bar>f64_round q - q\<bar> \<le> 2 powi (f64_exp q - 1)"
    and "\<bar>f64_round q - q\<bar> \<le> q / 2 ^ 53"
proof -
  let ?e = "f64_exp q" and ?u = "(2 :: rat) powi f64_exp q"
  have u: "0 < ?u" by simp
  have eq: "f64_round q - q = (of_int (round_half_even (q * 2 powi (- ?e))) - q * 2 powi (- ?e)) * ?u"
    using assms by (simp add: f64_round_def left_diff_distrib mult.assoc power_int_minus)
  have "\<bar>f64_round q - q\<bar> \<le> 1 / 2 * ?u"
    unfolding eq abs_mult using u round_half_even_error by (intro mult_mono) auto
  also have "\<dots> = 2 powi (?e - 1)" by (simp add: power_int_diff)
  finally show half: "\<bar>f64_round q - q\<bar> \<le> 2 powi (?e - 1)" .
  have "(2 :: rat) powi (?e - 1) * 2 ^ 53 = 2 powi (?e - 1 + 53)"
    by (subst power_int_add) simp_all
  also have "\<dots> = 2 powi (?e + 52)" by (simp add: algebra_simps)
  also have "\<dots> \<le> q" using f64_exp_bounds(1) [OF assms] .
  finally have "2 powi (?e - 1) \<le> q / 2 ^ 53" by (simp add: pos_le_divide_eq)
  with half show "\<bar>f64_round q - q\<bar> \<le> q / 2 ^ 53" by linarith
qed

text \<open>A number slightly below an integer that has an exact representation rounds to that integer.\<close>

lemma f64_round_up_to_int:
  assumes "0 < q" "q \<le> of_int k" "k < 2 ^ 53" "(of_int k - q) * 2 ^ 54 < of_int k"
  shows "f64_round q = of_int k"
proof -
  let ?e = "f64_exp q" and ?u = "(2 :: rat) powi f64_exp q"
  note b = f64_exp_bounds [OF assms(1)]
  have k: "0 < k" using assms by (metis le_less_trans less_le_trans of_int_0_less_iff)
  have close: "of_int k - q < 1 / 2"
  proof -
    have "(of_int k :: rat) < of_int (2 ^ 53)" using assms(3) by (simp only: of_int_less_iff)
    then show ?thesis using assms(4) by simp
  qed
  have "q < 2 powi 53"
  proof -
    have "(of_int k :: rat) < of_int (2 ^ 53)" using assms(3) by (simp only: of_int_less_iff)
    then show ?thesis using assms(2) by simp
  qed
  then have "(2 :: rat) powi (?e + 52) < 2 powi 53" using b(1) by (rule le_less_trans [rotated])
  then have "?e + 52 < 53" by (rule power_int_le_imp_less_exp [rotated]) simp_all
  then have e0: "?e \<le> 0" by simp
  have "of_int k \<le> (2 :: rat) powi (?e + 53)"
  proof (cases "0 \<le> ?e + 53")
    case True
    then have p: "(2 :: rat) powi (?e + 53) = of_int (2 ^ nat (?e + 53))"
      by (simp add: power_int_nonneg_exp)
    have "(of_int k :: rat) < of_int (2 ^ nat (?e + 53) + 1)"
      using close b(2) unfolding p by simp
    then have "k < 2 ^ nat (?e + 53) + 1" by (simp only: of_int_less_iff)
    then show ?thesis unfolding p by (simp only: of_int_le_iff)
  next
    case False
    have "(2 :: rat) powi (?e + 53) \<le> 2 powi (- 1)" using False by (intro power_int_increasing) auto
    then have "of_int k < (1 :: rat)" using close b(2) by (simp add: power_int_minus)
    then show ?thesis using k by simp
  qed
  also have "(2 :: rat) powi (?e + 53) = ?u * 2 ^ 53" by (subst power_int_add) simp_all
  finally have gap: "(of_int k - q) * 2 < ?u" using assms(4) by simp
  have int: "of_int k * 2 powi (- ?e) = (of_int (k * 2 ^ nat (- ?e)) :: rat)"
    using e0 by (simp add: power_int_nonneg_exp)
  have "round_half_even (q * 2 powi (- ?e)) = k * 2 ^ nat (- ?e)"
  proof (rule round_half_even_near)
    have "(of_int (k * 2 ^ nat (- ?e)) - q * 2 powi (- ?e)) * 2 = ((of_int k - q) * 2) * 2 powi (- ?e)"
      unfolding int [symmetric] by (simp add: algebra_simps)
    also have "\<dots> < ?u * 2 powi (- ?e)" using gap by (intro mult_strict_right_mono) simp_all
    also have "\<dots> = 1" by (simp add: power_int_minus)
    finally have "of_int (k * 2 ^ nat (- ?e)) - q * 2 powi (- ?e) < 1 / 2" by simp
    moreover have "0 \<le> of_int (k * 2 ^ nat (- ?e)) - q * 2 powi (- ?e)"
      unfolding int [symmetric] using assms(2) by (simp add: left_diff_distrib [symmetric])
    ultimately show "\<bar>of_int (k * 2 ^ nat (- ?e)) - q * 2 powi (- ?e)\<bar> < 1 / 2" by linarith
  qed
  then show ?thesis using assms(1)
    by (simp only: f64_round_def int [symmetric]) (simp add: power_int_minus)
qed

lemma f64_of_nat_exact [simp]: "n < 2 ^ 53 \<Longrightarrow> f64_of_nat n = of_nat n"
proof (cases "n = 0")
  case False
  assume "n < 2 ^ 53"
  then have "int n < 2 ^ 53" by (metis of_nat_less_iff of_nat_numeral of_nat_power)
  then show ?thesis using False f64_round_up_to_int [of "of_nat n" "int n"] by (simp add: f64_of_nat_def)
qed (simp add: f64_of_nat_def f64_round_def)

lemma f64_round_nonneg: "0 \<le> f64_round q"
proof (cases "0 < q")
  case True
  have "\<bar>f64_round q - q\<bar> \<le> q / 2 ^ 53" using True by (rule f64_round_error(2))
  moreover have "q / 2 ^ 53 \<le> q" using True by simp
  ultimately show ?thesis by linarith
next
  case False
  then show ?thesis by (simp add: f64_round_def)
qed

text \<open>A proportion stays one when rounded.\<close>

lemma f64_round_le_1:
  assumes "q \<le> 1"
  shows "f64_round q \<le> 1"
proof (cases "0 < q \<and> q < 1")
  case True
  let ?e = "f64_exp q" and ?x = "q * 2 powi (- f64_exp q)"
  note b = f64_exp_bounds [of q]
  have "(2 :: rat) powi (?e + 52) < 2 powi 0" using b True by simp
  then have "?e + 52 < 0" by (rule power_int_le_imp_less_exp [rotated]) simp_all
  have "q * 2 powi (- ?e) < 2 powi (?e + 53) * 2 powi (- ?e)"
    using b True by (intro mult_strict_right_mono) simp_all
  also have "\<dots> = 2 powi ((?e + 53) + (- ?e))" by (rule power_int_add [symmetric]) simp
  also have "\<dots> = 2 ^ 53" by simp
  finally have "of_int (round_half_even ?x) < (2 ^ 53 + 1 :: rat)"
    using round_half_even_error [of ?x] by linarith
  also have "\<dots> = of_int (2 ^ 53 + 1)" by simp
  finally have "round_half_even ?x \<le> 2 ^ 53" by (simp only: of_int_less_iff zle_add1_eq_le)
  then have "(of_int (round_half_even ?x) :: rat) \<le> of_int (2 ^ 53)" by (simp only: of_int_le_iff)
  then have "f64_round q \<le> of_int (2 ^ 53) * 2 powi ?e"
    using True by (simp add: f64_round_def)
  also have "\<dots> = 2 powi (53 + ?e)" by (subst power_int_add) simp_all
  also have "\<dots> \<le> 2 powi 0" using \<open>?e + 52 < 0\<close> by (intro power_int_increasing) simp_all
  finally show ?thesis by simp
next
  case False
  then consider "q \<le> 0" | "q = 1" using assms by linarith
  then show ?thesis
    using f64_round_up_to_int [of 1 1] by cases (simp_all add: f64_round_def [of q])
qed

end
