(* ===== verification/Metrics.thy ===== *)
theory Metrics
  imports Errors Float64
begin

section \<open>The metrics store (src/admin/store.rs)\<close>

text \<open>
  \<open>MetricsStore\<close> as a record of what its locks and atomics guard, one definition per critical
  section and \<open>record_request\<close> as their composition in the order of the code. Counters are 64-bit
  and wrap around, as atomics and release builds do. The wall clock is an argument. The broadcast
  channel is the list of the entries sent.

  The proofs show what the store holds after any sequence of operations, in terms of the sequence
  itself: the two ring buffers by a locale, the counters modulo \<open>2 ^ 64\<close>, the bucket timeline under
  a clock that does not run backwards, the percentiles in double precision.
\<close>

definition RING_BUFFER_CAP :: nat where
  "RING_BUFFER_CAP = 10000"

definition BUCKET_COUNT :: nat where
  "BUCKET_COUNT = 60"

definition LATENCY_BUFFER_CAP :: nat where
  "LATENCY_BUFFER_CAP = 10000"

record request_log_entry =
  le_id :: u64
  le_timestamp_ms :: u64
  le_method :: string
  le_path :: string
  le_matched_route :: "string option"
  le_status_code :: u16
  le_latency_ms :: u64
  le_upstream_target :: string
  le_error :: "string option"

record time_bucket =
  tb_timestamp_secs :: u64
  tb_request_count :: u64
  tb_total_latency_ms :: u64
  tb_error_count :: u64

record route_stats =
  rt_total_requests :: u64
  rt_error_count :: u64
  rt_total_latency_ms :: u64

definition default_route_stats :: route_stats where
  "default_route_stats = \<lparr>rt_total_requests = 0, rt_error_count = 0, rt_total_latency_ms = 0\<rparr>"

record metrics_store =
  st_request_log :: "request_log_entry list"
  st_total_requests :: u64
  st_total_errors :: u64
  st_route_stats :: "(string \<times> route_stats) list"
  st_time_buckets :: "time_bucket list"
  st_recent_latencies :: "u64 list"
  st_status_code_counts :: "(u16 \<times> u64) list"
  st_events :: "request_log_entry list"
  st_started_at :: nat
  st_next_id :: u64

definition metrics_new :: "nat \<Rightarrow> metrics_store" where
  "metrics_new started_at =
     \<lparr>st_request_log = [], st_total_requests = 0, st_total_errors = 0, st_route_stats = [],
      st_time_buckets = [], st_recent_latencies = [], st_status_code_counts = [], st_events = [],
      st_started_at = started_at, st_next_id = 1\<rparr>"

subsection \<open>The critical sections of record\_request\<close>

definition is_error :: "u16 \<Rightarrow> string option \<Rightarrow> bool" where
  "is_error status_code err \<longleftrightarrow> 400 \<le> status_code \<or> err \<noteq> None"

definition count_status :: "u16 \<Rightarrow> (u16 \<times> u64) list \<Rightarrow> (u16 \<times> u64) list" where
  "count_status status_code counts =
     AList.update status_code
       ((case map_of counts status_code of Some n \<Rightarrow> n | None \<Rightarrow> 0) + 1) counts"

definition update_route_stats ::
  "string \<Rightarrow> bool \<Rightarrow> u64 \<Rightarrow> (string \<times> route_stats) list \<Rightarrow> (string \<times> route_stats) list" where
  "update_route_stats route is_err latency_ms stats =
     (let s = (case map_of stats route of Some s \<Rightarrow> s | None \<Rightarrow> default_route_stats)
      in AList.update route
           \<lparr>rt_total_requests = rt_total_requests s + 1,
            rt_error_count = (if is_err then rt_error_count s + 1 else rt_error_count s),
            rt_total_latency_ms = rt_total_latency_ms s + latency_ms\<rparr> stats)"

text \<open>\<open>while buckets.len() > BUCKET_COUNT { pop_front }\<close>.\<close>

fun pop_excess :: "time_bucket list \<Rightarrow> time_bucket list" where
  "pop_excess [] = []"
| "pop_excess (b # bs) = (if BUCKET_COUNT < length (b # bs) then pop_excess bs else b # bs)"

definition update_buckets :: "u64 \<Rightarrow> bool \<Rightarrow> u64 \<Rightarrow> time_bucket list \<Rightarrow> time_bucket list" where
  "update_buckets now_secs is_err latency_ms buckets =
     (let fresh = \<lparr>tb_timestamp_secs = now_secs, tb_request_count = 1,
                   tb_total_latency_ms = latency_ms, tb_error_count = (if is_err then 1 else 0)\<rparr>
      in if buckets \<noteq> [] then
           let back = last buckets in
           if tb_timestamp_secs back = now_secs then
             butlast buckets @
               [back\<lparr>tb_request_count := tb_request_count back + 1,
                     tb_total_latency_ms := tb_total_latency_ms back + latency_ms,
                     tb_error_count := (if is_err then tb_error_count back + 1 else tb_error_count back)\<rparr>]
           else pop_excess (buckets @ [fresh])
         else buckets @ [fresh])"

definition push_latency :: "u64 \<Rightarrow> u64 list \<Rightarrow> u64 list" where
  "push_latency latency_ms latencies =
     (if LATENCY_BUFFER_CAP \<le> length latencies then tl latencies else latencies) @ [latency_ms]"

definition push_log :: "request_log_entry \<Rightarrow> request_log_entry list \<Rightarrow> request_log_entry list" where
  "push_log entry entries =
     (if RING_BUFFER_CAP \<le> length entries then tl entries else entries) @ [entry]"

record measurement =
  me_method :: string
  me_path :: string
  me_matched_route :: "string option"
  me_upstream_target :: string
  me_status_code :: u16
  me_latency_ms :: u64
  me_error :: "string option"

definition log_entry :: "u64 \<Rightarrow> u64 \<Rightarrow> measurement \<Rightarrow> request_log_entry" where
  "log_entry entry_id timestamp_ms m =
     \<lparr>le_id = entry_id, le_timestamp_ms = timestamp_ms, le_method = me_method m, le_path = me_path m,
      le_matched_route = me_matched_route m, le_status_code = me_status_code m,
      le_latency_ms = me_latency_ms m, le_upstream_target = me_upstream_target m,
      le_error = me_error m\<rparr>"

definition record_request :: "u64 \<Rightarrow> measurement \<Rightarrow> metrics_store \<Rightarrow> metrics_store" where
  "record_request timestamp_ms m st =
     (let entry = log_entry (st_next_id st) timestamp_ms m;
          st = st\<lparr>st_next_id := st_next_id st + 1\<rparr>;
          st = st\<lparr>st_total_requests := st_total_requests st + 1\<rparr>;
          is_err = is_error (me_status_code m) (me_error m);
          st = (if is_err then st\<lparr>st_total_errors := st_total_errors st + 1\<rparr> else st);
          st = st\<lparr>st_status_code_counts := count_status (me_status_code m) (st_status_code_counts st)\<rparr>;
          st = (case me_matched_route m of
                  Some route \<Rightarrow>
                    st\<lparr>st_route_stats := update_route_stats route is_err (me_latency_ms m) (st_route_stats st)\<rparr>
                | None \<Rightarrow> st);
          st = st\<lparr>st_time_buckets :=
                    update_buckets (timestamp_ms div 1000) is_err (me_latency_ms m) (st_time_buckets st)\<rparr>;
          st = st\<lparr>st_recent_latencies := push_latency (me_latency_ms m) (st_recent_latencies st)\<rparr>;
          st = st\<lparr>st_request_log := push_log entry (st_request_log st)\<rparr>
      in st\<lparr>st_events := st_events st @ [entry]\<rparr>)"

subsection \<open>Readers and the ticker\<close>

definition uptime_secs :: "nat \<Rightarrow> metrics_store \<Rightarrow> u64" where
  "uptime_secs now st = word_of_nat ((now - st_started_at st) div 1000000000)"

definition recent_requests :: "nat \<Rightarrow> metrics_store \<Rightarrow> request_log_entry list" where
  "recent_requests n st = take n (rev (st_request_log st))"

definition get_route_stats :: "metrics_store \<Rightarrow> (string \<times> route_stats) list" where
  "get_route_stats st = st_route_stats st"

definition get_status_code_counts :: "metrics_store \<Rightarrow> (u16 \<times> u64) list" where
  "get_status_code_counts st = st_status_code_counts st"

definition get_time_buckets :: "metrics_store \<Rightarrow> time_bucket list" where
  "get_time_buckets st = st_time_buckets st"

definition count_in_window :: "time_bucket list \<Rightarrow> u64 \<Rightarrow> u64 \<Rightarrow> u64" where
  "count_in_window buckets now_secs window =
     (let oldest = saturating_sub now_secs (saturating_sub window 1)
      in sum_list (map tb_request_count
           (filter (\<lambda>b. oldest \<le> tb_timestamp_secs b \<and> tb_timestamp_secs b \<le> now_secs) buckets)))"

definition compute_rps :: "u64 \<Rightarrow> nat \<Rightarrow> metrics_store \<Rightarrow> rat" where
  "compute_rps now_secs now st =
     (let window = 5;
          count = count_in_window (st_time_buckets st) now_secs window;
          divisor = max (min window (max (uptime_secs now st) 1)) 1
      in f64_div (f64_of_nat (unat count)) (f64_of_nat (unat divisor)))"

definition tick :: "u64 \<Rightarrow> metrics_store \<Rightarrow> metrics_store" where
  "tick now_secs st =
     (let buckets = st_time_buckets st in
      if buckets = [] \<or> tb_timestamp_secs (last buckets) \<noteq> now_secs
      then st\<lparr>st_time_buckets := pop_excess (buckets @
             [\<lparr>tb_timestamp_secs = now_secs, tb_request_count = 0, tb_total_latency_ms = 0,
               tb_error_count = 0\<rparr>])\<rparr>
      else st)"

definition percentile_rank :: "nat \<Rightarrow> rat \<Rightarrow> nat" where
  "percentile_rank n p = nat \<lceil>f64_mult (f64_div p 100) (f64_of_nat n)\<rceil>"

definition percentile :: "u64 list \<Rightarrow> rat \<Rightarrow> rat" where
  "percentile sorted_asc p =
     (if sorted_asc = [] then 0
      else let n = length sorted_asc; idx = min (percentile_rank n p - 1) (n - 1)
           in f64_of_nat (unat (sorted_asc ! idx)))"

definition get_percentiles :: "metrics_store \<Rightarrow> rat \<times> rat \<times> rat" where
  "get_percentiles st =
     (let latencies = st_recent_latencies st in
      if latencies = [] then (0, 0, 0)
      else let s = sort latencies in (percentile s 50, percentile s 95, percentile s 99))"

subsection \<open>Ring buffers\<close>

text \<open>
  The interface of the two bounded buffers: a push drops the oldest element when the buffer is full
  and appends. From the empty buffer, a sequence of pushes leaves its last elements.
\<close>

locale ring_buffer =
  fixes cap :: nat and push :: "'a \<Rightarrow> 'a list \<Rightarrow> 'a list"
  assumes cap_pos: "0 < cap"
    and push_full: "cap \<le> length xs \<Longrightarrow> push x xs = tl xs @ [x]"
    and push_room: "length xs < cap \<Longrightarrow> push x xs = xs @ [x]"
begin

definition newest :: "'a list \<Rightarrow> 'a list" where
  "newest xs = drop (length xs - cap) xs"

lemma length_newest: "length (newest xs) = min (length xs) cap"
  by (simp add: newest_def min_def)

lemma push_newest: "push x (newest xs) = newest (xs @ [x])"
proof (cases "length xs < cap")
  case True
  then show ?thesis by (simp add: newest_def push_room)
next
  case False
  then have "push x (newest xs) = tl (newest xs) @ [x]"
    by (intro push_full) (simp add: length_newest)
  also have "\<dots> = newest (xs @ [x])"
    using False cap_pos by (simp add: newest_def tl_drop drop_Suc Suc_diff_le)
  finally show ?thesis .
qed

lemma newest_Nil: "newest [] = []"
  by (simp add: newest_def)

lemma newest_bound: "length (newest xs) \<le> cap"
  by (simp add: length_newest)

lemma rev_take_newest: "n \<le> cap \<Longrightarrow> take n (rev (newest xs)) = take n (rev xs)"
  by (simp add: newest_def rev_drop min_def)

end

interpretation latency_buffer: ring_buffer LATENCY_BUFFER_CAP push_latency
  by unfold_locales (simp_all add: LATENCY_BUFFER_CAP_def push_latency_def)

interpretation request_log_buffer: ring_buffer RING_BUFFER_CAP push_log
  by unfold_locales (simp_all add: RING_BUFFER_CAP_def push_log_def)

subsection \<open>Sequences of operations\<close>

datatype metrics_op = Record u64 measurement | Tick u64

fun metrics_step :: "metrics_op \<Rightarrow> metrics_store \<Rightarrow> metrics_store" where
  "metrics_step (Record timestamp_ms m) st = record_request timestamp_ms m st"
| "metrics_step (Tick now_secs) st = tick now_secs st"

definition metrics_run :: "metrics_op list \<Rightarrow> metrics_store \<Rightarrow> metrics_store" where
  "metrics_run ops st = fold metrics_step ops st"

fun recorded :: "metrics_op list \<Rightarrow> (u64 \<times> measurement) list" where
  "recorded [] = []"
| "recorded (Record t m # ops) = (t, m) # recorded ops"
| "recorded (Tick t # ops) = recorded ops"

text \<open>The log entries of a sequence, numbered from a first identifier.\<close>

fun entries_from :: "u64 \<Rightarrow> (u64 \<times> measurement) list \<Rightarrow> request_log_entry list" where
  "entries_from k [] = []"
| "entries_from k ((t, m) # rs) = log_entry k t m # entries_from (k + 1) rs"

lemma recorded_append [simp]: "recorded (xs @ ys) = recorded xs @ recorded ys"
  by (induction xs rule: recorded.induct) auto

lemma metrics_run_Nil [simp]: "metrics_run [] st = st"
  by (simp add: metrics_run_def)

lemma metrics_run_snoc [simp]:
  "metrics_run (ops @ [op]) st = metrics_step op (metrics_run ops st)"
  by (simp add: metrics_run_def)

lemma entries_from_append [simp]:
  "entries_from k (xs @ ys) = entries_from k xs @ entries_from (k + of_nat (length xs)) ys"
  by (induction k xs rule: entries_from.induct) (simp_all add: algebra_simps)

lemma length_entries_from [simp]: "length (entries_from k xs) = length xs"
  by (induction k xs rule: entries_from.induct) simp_all

text \<open>What each operation does to each field.\<close>

lemma record_request_fields [simp]:
  "st_next_id (record_request t m st) = st_next_id st + 1"
  "st_total_requests (record_request t m st) = st_total_requests st + 1"
  "st_total_errors (record_request t m st) =
     st_total_errors st + (if is_error (me_status_code m) (me_error m) then 1 else 0)"
  "st_status_code_counts (record_request t m st) =
     count_status (me_status_code m) (st_status_code_counts st)"
  "st_route_stats (record_request t m st) =
     (case me_matched_route m of
        Some route \<Rightarrow> update_route_stats route (is_error (me_status_code m) (me_error m))
                        (me_latency_ms m) (st_route_stats st)
      | None \<Rightarrow> st_route_stats st)"
  "st_time_buckets (record_request t m st) =
     update_buckets (t div 1000) (is_error (me_status_code m) (me_error m)) (me_latency_ms m)
       (st_time_buckets st)"
  "st_recent_latencies (record_request t m st) = push_latency (me_latency_ms m) (st_recent_latencies st)"
  "st_request_log (record_request t m st) = push_log (log_entry (st_next_id st) t m) (st_request_log st)"
  "st_events (record_request t m st) = st_events st @ [log_entry (st_next_id st) t m]"
  "st_started_at (record_request t m st) = st_started_at st"
  by (simp_all add: record_request_def Let_def split: option.splits)

lemma tick_fields [simp]:
  "st_next_id (tick t st) = st_next_id st"
  "st_total_requests (tick t st) = st_total_requests st"
  "st_total_errors (tick t st) = st_total_errors st"
  "st_status_code_counts (tick t st) = st_status_code_counts st"
  "st_route_stats (tick t st) = st_route_stats st"
  "st_recent_latencies (tick t st) = st_recent_latencies st"
  "st_request_log (tick t st) = st_request_log st"
  "st_events (tick t st) = st_events st"
  "st_started_at (tick t st) = st_started_at st"
  by (simp_all add: tick_def Let_def)

lemma metrics_new_fields [simp]:
  "st_next_id (metrics_new t) = 1" "st_total_requests (metrics_new t) = 0"
  "st_total_errors (metrics_new t) = 0" "st_status_code_counts (metrics_new t) = []"
  "st_route_stats (metrics_new t) = []" "st_recent_latencies (metrics_new t) = []"
  "st_request_log (metrics_new t) = []" "st_events (metrics_new t) = []"
  "st_time_buckets (metrics_new t) = []" "st_started_at (metrics_new t) = t"
  by (simp_all add: metrics_new_def)

subsection \<open>Counters\<close>

definition errors_of :: "(u64 \<times> measurement) list \<Rightarrow> (u64 \<times> measurement) list" where
  "errors_of rs = filter (\<lambda>(_, m). is_error (me_status_code m) (me_error m)) rs"

definition on_route :: "string \<Rightarrow> (u64 \<times> measurement) list \<Rightarrow> (u64 \<times> measurement) list" where
  "on_route route rs = filter (\<lambda>(_, m). me_matched_route m = Some route) rs"

definition with_status :: "u16 \<Rightarrow> (u64 \<times> measurement) list \<Rightarrow> (u64 \<times> measurement) list" where
  "with_status code rs = filter (\<lambda>(_, m). me_status_code m = code) rs"

definition status_count :: "metrics_store \<Rightarrow> u16 \<Rightarrow> u64" where
  "status_count st code = (case map_of (get_status_code_counts st) code of Some n \<Rightarrow> n | None \<Rightarrow> 0)"

definition stats_of :: "metrics_store \<Rightarrow> string \<Rightarrow> route_stats" where
  "stats_of st route =
     (case map_of (get_route_stats st) route of Some s \<Rightarrow> s | None \<Rightarrow> default_route_stats)"

lemma status_count_record:
  "status_count (record_request t m st) code =
     status_count st code + (if code = me_status_code m then 1 else 0)"
  by (simp add: status_count_def get_status_code_counts_def count_status_def update_conv')

lemma stats_of_record:
  "stats_of (record_request t m st) route =
     (if me_matched_route m = Some route then
        \<lparr>rt_total_requests = rt_total_requests (stats_of st route) + 1,
         rt_error_count = rt_error_count (stats_of st route)
           + (if is_error (me_status_code m) (me_error m) then 1 else 0),
         rt_total_latency_ms = rt_total_latency_ms (stats_of st route) + me_latency_ms m\<rparr>
      else stats_of st route)"
  by (simp add: stats_of_def get_route_stats_def update_route_stats_def Let_def update_conv'
      split: option.splits)

lemma stats_of_tick [simp]: "stats_of (tick t st) = stats_of st" "status_count (tick t st) = status_count st"
  by (simp_all add: fun_eq_iff stats_of_def status_count_def get_route_stats_def get_status_code_counts_def)

lemma counters_run:
  "st_total_requests (metrics_run ops (metrics_new t0)) = of_nat (length (recorded ops)) \<and>
   st_total_errors (metrics_run ops (metrics_new t0)) = of_nat (length (errors_of (recorded ops))) \<and>
   status_count (metrics_run ops (metrics_new t0)) code
     = of_nat (length (with_status code (recorded ops)))"
proof (induction ops rule: rev_induct)
  case Nil
  show ?case
    by (simp add: errors_of_def with_status_def status_count_def get_status_code_counts_def)
next
  case (snoc op ops)
  then show ?case
    by (cases op) (simp_all add: errors_of_def with_status_def status_count_record)
qed

text \<open>
  After any sequence of recorded requests and ticks, the two totals and the count of every
  status code are the numbers of the requests, of the failed ones (status 400 and above, or an error
  text) and of those with that status, modulo \<open>2 ^ 64\<close>.
\<close>

lemma metrics_counters:
  "st_total_requests (metrics_run ops (metrics_new t0)) = of_nat (length (recorded ops)) \<and>
   st_total_errors (metrics_run ops (metrics_new t0)) = of_nat (length (errors_of (recorded ops))) \<and>
   status_count (metrics_run ops (metrics_new t0)) code
     = of_nat (length (with_status code (recorded ops)))"
  by (rule counters_run)

text \<open>
  The statistics of a route are those of the requests that matched it: their number, the number
  of failures among them and the sum of their latencies, modulo \<open>2 ^ 64\<close>.
\<close>

lemma metrics_route_stats:
  "stats_of (metrics_run ops (metrics_new t0)) route =
     \<lparr>rt_total_requests = of_nat (length (on_route route (recorded ops))),
      rt_error_count = of_nat (length (errors_of (on_route route (recorded ops)))),
      rt_total_latency_ms = sum_list (map (me_latency_ms \<circ> snd) (on_route route (recorded ops)))\<rparr>"
proof (induction ops rule: rev_induct)
  case Nil
  show ?case
    by (simp add: errors_of_def on_route_def stats_of_def get_route_stats_def default_route_stats_def)
next
  case (snoc op ops)
  then show ?case
    by (cases op) (simp_all add: errors_of_def on_route_def stats_of_record)
qed

text \<open>
  C37: the request log holds the newest 10,000 entries, numbered in the order of their recording
  from 1, the latency buffer the latencies of the newest 10,000, every entry was broadcast once, and
  \<open>recent_requests\<close> returns the newest first.
\<close>

theorem metrics_buffers:
  assumes "n \<le> RING_BUFFER_CAP"
  shows "st_request_log (metrics_run ops (metrics_new t0))
      = drop (length (recorded ops) - RING_BUFFER_CAP) (entries_from 1 (recorded ops)) \<and>
    st_recent_latencies (metrics_run ops (metrics_new t0))
      = map (me_latency_ms \<circ> snd) (drop (length (recorded ops) - LATENCY_BUFFER_CAP) (recorded ops)) \<and>
    st_events (metrics_run ops (metrics_new t0)) = entries_from 1 (recorded ops) \<and>
    recent_requests n (metrics_run ops (metrics_new t0)) = take n (rev (entries_from 1 (recorded ops)))"
proof -
  let ?st = "\<lambda>ops. metrics_run ops (metrics_new t0)"
  have inv: "st_next_id (?st ops) = 1 + of_nat (length (recorded ops)) \<and>
      st_events (?st ops) = entries_from 1 (recorded ops) \<and>
      st_request_log (?st ops) = request_log_buffer.newest (entries_from 1 (recorded ops)) \<and>
      st_recent_latencies (?st ops) = latency_buffer.newest (map (me_latency_ms \<circ> snd) (recorded ops))"
  proof (induction ops rule: rev_induct)
    case Nil
    show ?case by (simp add: request_log_buffer.newest_Nil latency_buffer.newest_Nil)
  next
    case (snoc op ops)
    then show ?case
      by (cases op) (simp_all add: request_log_buffer.push_newest latency_buffer.push_newest)
  qed
  then show ?thesis using assms
    by (simp add: recent_requests_def request_log_buffer.rev_take_newest)
      (simp add: request_log_buffer.newest_def latency_buffer.newest_def drop_map)
qed

theorem metrics_buffers_witness:
  "recent_requests 1 (metrics_run
     [Record 2000 \<lparr>me_method = ''GET'', me_path = ''/a'', me_matched_route = None,
        me_upstream_target = [], me_status_code = 404, me_latency_ms = 3, me_error = None\<rparr>,
      Tick 3] (metrics_new 0))
   = [log_entry 1 2000 \<lparr>me_method = ''GET'', me_path = ''/a'', me_matched_route = None,
        me_upstream_target = [], me_status_code = 404, me_latency_ms = 3, me_error = None\<rparr>]"
  using metrics_buffers [of 1 "[Record 2000 \<lparr>me_method = ''GET'', me_path = ''/a'',
      me_matched_route = None, me_upstream_target = [], me_status_code = 404, me_latency_ms = 3,
      me_error = None\<rparr>, Tick 3]" 0]
  by (simp add: RING_BUFFER_CAP_def)

subsection \<open>The bucket timeline\<close>

text \<open>
  The unbounded timeline of a sequence of operations: one point for every second in which there was
  one, with the number of requests of that second. The store keeps its last 60 points.
\<close>

fun op_secs :: "metrics_op \<Rightarrow> u64" where
  "op_secs (Record t m) = t div 1000"
| "op_secs (Tick s) = s"

fun op_count :: "metrics_op \<Rightarrow> nat" where
  "op_count (Record t m) = 1"
| "op_count (Tick s) = 0"

definition in_sec :: "u64 \<Rightarrow> (u64 \<times> measurement) list \<Rightarrow> nat" where
  "in_sec s rs = length (filter (\<lambda>(t, _). t div 1000 = s) rs)"

definition timeline :: "metrics_op list \<Rightarrow> (u64 \<times> u64) list" where
  "timeline ops = map (\<lambda>s. (s, of_nat (in_sec s (recorded ops)))) (remdups_adj (map op_secs ops))"

definition points :: "time_bucket list \<Rightarrow> (u64 \<times> u64) list" where
  "points buckets = map (\<lambda>b. (tb_timestamp_secs b, tb_request_count b)) buckets"

definition grow :: "u64 \<Rightarrow> u64 \<Rightarrow> (u64 \<times> u64) list \<Rightarrow> (u64 \<times> u64) list" where
  "grow s d vs = (if vs \<noteq> [] \<and> fst (last vs) = s then butlast vs @ [(s, snd (last vs) + d)] else vs @ [(s, d)])"

definition last60 :: "'a list \<Rightarrow> 'a list" where
  "last60 xs = drop (length xs - BUCKET_COUNT) xs"

lemma pop_excess_eq: "pop_excess bs = last60 bs"
  by (induction bs) (auto simp: last60_def Suc_diff_le not_less)

lemma last60_grow: "last60 (grow s d (last60 vs)) = last60 (grow s d vs)"
proof (cases "vs = []")
  case False
  then have "last60 vs \<noteq> []" "last (last60 vs) = last vs"
    by (auto simp: last60_def BUCKET_COUNT_def not_le)
  moreover have "butlast (last60 vs) = drop (length vs - BUCKET_COUNT) (butlast vs)"
    by (simp add: last60_def butlast_drop)
  ultimately show ?thesis using False
    by (auto simp: grow_def last60_def BUCKET_COUNT_def min_def not_less intro!: arg_cong2 [where f = drop])
qed (simp add: last60_def)

lemma last60_grow_bounded:
  "vs \<noteq> [] \<Longrightarrow> fst (last vs) = s \<Longrightarrow> length vs \<le> BUCKET_COUNT \<Longrightarrow> last60 (grow s d vs) = grow s d vs"
  by (simp add: grow_def last60_def)

lemma last60_short [simp]: "length vs \<le> BUCKET_COUNT \<Longrightarrow> last60 vs = vs"
  by (simp add: last60_def)

lemma points_last60: "points (last60 bs) = last60 (points bs)"
  by (simp add: points_def last60_def drop_map)

lemma points_simps [simp]:
  "points (xs @ ys) = points xs @ points ys" "points [] = []" "length (points xs) = length xs"
  "points xs = [] \<longleftrightarrow> xs = []" "points (butlast xs) = butlast (points xs)"
  by (simp_all add: points_def map_butlast)

lemma last_points: "bs \<noteq> [] \<Longrightarrow> last (points bs) = (tb_timestamp_secs (last bs), tb_request_count (last bs))"
  by (simp add: points_def last_map)

lemma points_update_buckets:
  assumes "length bs \<le> BUCKET_COUNT"
  shows "points (update_buckets s e l bs) = last60 (grow s 1 (points bs))"
proof (cases "bs \<noteq> [] \<and> tb_timestamp_secs (last bs) = s")
  case True
  then have "points (update_buckets s e l bs) = grow s 1 (points bs)"
    by (simp add: update_buckets_def Let_def grow_def last_points) (simp add: points_def)
  then show ?thesis using True assms by (simp add: last60_grow_bounded last_points)
next
  case False
  then show ?thesis
    by (auto simp: update_buckets_def Let_def grow_def last_points pop_excess_eq points_last60 BUCKET_COUNT_def)
      (simp_all add: points_def)
qed

lemma points_tick:
  assumes "length (st_time_buckets st) \<le> BUCKET_COUNT"
  shows "points (st_time_buckets (tick s st)) = last60 (grow s 0 (points (st_time_buckets st)))"
proof (cases "st_time_buckets st \<noteq> [] \<and> tb_timestamp_secs (last (st_time_buckets st)) = s")
  case True
  let ?vs = "points (st_time_buckets st)"
  from True have "grow s 0 ?vs = ?vs"
    by (simp add: grow_def last_points) (metis append_butlast_last_id last_points points_simps(4))
  then show ?thesis using True assms by (simp add: tick_def)
next
  case False
  then show ?thesis
    by (auto simp: tick_def Let_def grow_def last_points pop_excess_eq points_last60)
      (simp_all add: points_def)
qed

lemma in_sec_snoc [simp]:
  "in_sec s (recorded ops @ recorded [op]) = in_sec s (recorded ops) + (if op_secs op = s then op_count op else 0)"
  by (cases op) (simp_all add: in_sec_def)

lemma sorted_distinct_remdups_adj: "sorted (xs :: 'a :: linorder list) \<Longrightarrow> distinct (remdups_adj xs)"
  by (induction xs rule: remdups_adj.induct) auto

lemma sorted_last_not_before:
  assumes "sorted (xs @ [x])" "x \<noteq> last xs" "xs \<noteq> []"
  shows "x \<notin> set xs"
proof -
  obtain ys y where xs: "xs = ys @ [y]" using assms(3) by (metis append_butlast_last_id)
  then show ?thesis using assms by (auto simp: sorted_append)
qed

lemma in_sec_0: "s \<notin> set (map op_secs ops) \<Longrightarrow> in_sec s (recorded ops) = 0"
  by (induction ops rule: recorded.induct) (auto simp: in_sec_def)

lemma timeline_snoc:
  assumes "sorted (map op_secs (ops @ [op]))"
  shows "timeline (ops @ [op]) = grow (op_secs op) (of_nat (op_count op)) (timeline ops)"
proof (cases "ops = []")
  case True
  then show ?thesis by (simp add: timeline_def grow_def in_sec_def [of _ "[]"] in_sec_snoc [of _ "[]", simplified])
next
  case ne: False
  let ?secs = "map op_secs ops" and ?s = "op_secs op"
  have rem: "remdups_adj (map op_secs (ops @ [op])) =
      remdups_adj ?secs @ (if ?s = last ?secs then [] else [?s])"
    using ne by (simp add: remdups_adj_append'')
  have last: "remdups_adj ?secs \<noteq> []" "last (remdups_adj ?secs) = last ?secs"
    using ne by simp_all
  have sorted: "sorted (?secs @ [?s])" using assms by simp
  show ?thesis
  proof (cases "?s = last ?secs")
    case True
    obtain ys where ys: "remdups_adj ?secs = ys @ [?s]"
      using last True by (metis append_butlast_last_id)
    have "distinct (remdups_adj ?secs)" using sorted by (simp add: sorted_append sorted_distinct_remdups_adj)
    then have "?s \<notin> set ys" using ys by simp
    moreover have "timeline ops = map (\<lambda>s. (s, of_nat (in_sec s (recorded ops)))) (ys @ [?s])"
      by (simp only: timeline_def ys)
    moreover have "timeline (ops @ [op])
        = map (\<lambda>s. (s, of_nat (in_sec s (recorded ops @ recorded [op])))) (ys @ [?s])"
      by (simp only: timeline_def rem ys True recorded_append refl if_True append_Nil2)
    ultimately show ?thesis by (auto simp: grow_def)
  next
    case False
    then have "?s \<notin> set ?secs" using sorted_last_not_before [OF sorted] ne by simp
    then show ?thesis using False ne last rem
      by (auto simp: timeline_def grow_def last_map in_sec_0)
  qed
qed

lemma points_run:
  assumes "sorted (map op_secs ops)"
  shows "points (st_time_buckets (metrics_run ops (metrics_new t0))) = last60 (timeline ops)"
  using assms
proof (induction ops rule: rev_induct)
  case Nil
  show ?case by (simp add: timeline_def)
next
  case (snoc op ops)
  let ?st = "metrics_run ops (metrics_new t0)"
  have IH: "points (st_time_buckets ?st) = last60 (timeline ops)"
    using snoc by (simp add: sorted_append)
  have "length (points (st_time_buckets ?st)) \<le> BUCKET_COUNT"
    unfolding IH by (simp add: last60_def)
  then have "points (st_time_buckets (metrics_step op ?st))
      = last60 (grow (op_secs op) (of_nat (op_count op)) (points (st_time_buckets ?st)))"
    by (cases op) (simp_all add: points_update_buckets points_tick)
  also have "\<dots> = last60 (timeline (ops @ [op]))"
    using snoc.prems by (simp only: IH last60_grow timeline_snoc)
  finally show ?case by simp
qed

lemma strictly_sorted_span:
  assumes "sorted_wrt (<) (x # ys)" "\<forall>y \<in> set ys. y \<le> N" "x \<le> N"
  shows "x + length ys \<le> (N :: nat)"
  using assms
proof (induction ys arbitrary: x)
  case (Cons y ys)
  then have "y + length ys \<le> N" by simp
  then show ?case using Cons.prems by simp
qed simp

lemma filter_recent_last60:
  assumes "sorted_wrt (<) xs" "\<forall>x \<in> set xs. x \<le> N" "N < lo + BUCKET_COUNT"
  shows "filter (\<lambda>x. lo \<le> x) (last60 xs) = filter (\<lambda>x. lo \<le> (x :: nat)) xs"
proof -
  let ?n = "length xs - BUCKET_COUNT"
  have "x < lo" if "x \<in> set (take ?n xs)" for x
  proof -
    have full: "length (drop ?n xs) = BUCKET_COUNT" using that by (cases "?n = 0") auto
    have "sorted_wrt (<) (take ?n xs @ drop ?n xs)" using assms(1) by simp
    then have "sorted_wrt (<) (x # drop ?n xs)" using that
      by (subst (asm) sorted_wrt_append) auto
    moreover have "\<forall>y \<in> set (drop ?n xs). y \<le> N" "x \<le> N"
      using assms(2) that by (auto dest: in_set_dropD in_set_takeD)
    ultimately have "x + BUCKET_COUNT \<le> N" using strictly_sorted_span full by metis
    then show ?thesis using assms(3) by simp
  qed
  then have "filter (\<lambda>x. lo \<le> x) (take ?n xs @ drop ?n xs) = filter (\<lambda>x. lo \<le> x) (drop ?n xs)"
    by (fastforce simp: filter_empty_conv simp del: append_take_drop_id)
  then show ?thesis by (simp add: last60_def)
qed

lemma sum_list_indicator:
  "distinct ys \<Longrightarrow> sum_list (map (\<lambda>s. if s = a then 1 else 0) ys) = (if a \<in> set ys then 1 else (0 :: nat))"
  by (induction ys) auto

lemma sum_in_sec:
  assumes "distinct secs" "\<forall>(t, m) \<in> set rs. P (t div 1000) \<longrightarrow> t div 1000 \<in> set secs"
  shows "sum_list (map (\<lambda>s. in_sec s rs) (filter P secs)) = length (filter (\<lambda>(t, m). P (t div 1000)) rs)"
  using assms(2)
proof (induction rs)
  case Nil
  show ?case by (simp add: in_sec_def sum_list_0)
next
  case (Cons r rs)
  obtain t m where r: "r = (t, m)" by force
  have "sum_list (map (\<lambda>s. in_sec s (r # rs)) (filter P secs))
      = sum_list (map (\<lambda>s. (if s = t div 1000 then 1 else 0) + in_sec s rs) (filter P secs))"
    by (intro arg_cong [where f = sum_list] map_cong) (auto simp: in_sec_def r)
  also have "\<dots> = sum_list (map (\<lambda>s. if s = t div 1000 then 1 else 0) (filter P secs))
      + length (filter (\<lambda>(t, m). P (t div 1000)) rs)"
    using Cons by (simp add: sum_list_addf)
  also have "sum_list (map (\<lambda>s. if s = t div 1000 then 1 else (0 :: nat)) (filter P secs))
      = (if P (t div 1000) then 1 else 0)"
    using assms(1) Cons.prems r by (simp add: sum_list_indicator)
  finally show ?case by (simp add: r)
qed

lemma saturating_sub_le_iff:
  "saturating_sub a b \<le> c \<longleftrightarrow> unat a \<le> unat c + unat b"
  by (auto simp: saturating_sub_def word_le_nat_alt word_less_nat_alt unat_sub)

lemma count_in_window_points:
  "count_in_window buckets now w = sum_list (map snd (filter (\<lambda>(s, _).
     saturating_sub now (saturating_sub w 1) \<le> s \<and> s \<le> now) (points buckets)))"
  by (simp add: count_in_window_def points_def filter_map o_def Let_def)

lemma sum_list_of_nat: "sum_list (map (\<lambda>x. of_nat (f x)) xs) = (of_nat (sum_list (map f xs)) :: u64)"
  by (induction xs) simp_all

text \<open>
  C30: with a clock that does not run backwards, the number of requests behind the reported rate is
  exact: it counts, modulo \<open>2 ^ 64\<close>, the requests recorded in the last \<open>window\<close> seconds, up to and
  including the current one, although only sixty buckets are kept and the ticker adds empty ones.
\<close>

theorem count_in_window_exact:
  assumes "sorted (map op_secs ops @ [now])" "0 < window" "unat window \<le> BUCKET_COUNT"
  shows "count_in_window (st_time_buckets (metrics_run ops (metrics_new t0))) now window
    = of_nat (length (filter (\<lambda>(t, _). unat now < unat (t div 1000) + unat window) (recorded ops)))"
proof -
  let ?secs = "remdups_adj (map op_secs ops)" and ?lo = "saturating_sub now (saturating_sub window 1)"
  let ?f = "\<lambda>s. (s, of_nat (in_sec s (recorded ops)) :: u64)"
  have sorted: "sorted (map op_secs ops)" and le_now: "\<forall>s \<in> set ?secs. s \<le> now"
    using assms(1) by (auto simp: sorted_append)
  have strict: "sorted_wrt (<) ?secs"
    using sorted by (simp add: strict_sorted_iff sorted_distinct_remdups_adj)
  have w1: "unat (saturating_sub window 1) = unat window - 1"
  proof -
    have "1 \<le> window" using assms(2) by (simp add: word_less_nat_alt word_le_nat_alt)
    then show ?thesis by (auto simp: saturating_sub_def unat_sub)
  qed
  have lo: "?lo \<le> s \<longleftrightarrow> unat now < unat s + unat window" for s
    using assms(2) by (auto simp: saturating_sub_le_iff w1 word_less_nat_alt)
  have recent: "filter (\<lambda>s. ?lo \<le> s) (last60 ?secs) = filter (\<lambda>s. ?lo \<le> s) ?secs"
  proof -
    let ?N = "\<lambda>ss. map unat ss :: nat list"
    have eq: "?N (filter (\<lambda>s. ?lo \<le> s) ss) = filter (\<lambda>x. unat ?lo \<le> x) (?N ss)" for ss
      by (simp add: filter_map o_def word_le_nat_alt)
    have "unat now < unat ?lo + BUCKET_COUNT" using lo [of ?lo] assms(3) by simp
    moreover have "sorted_wrt (<) (?N ?secs)"
      using strict by (simp add: sorted_wrt_map flip: word_less_nat_alt)
    moreover have "\<forall>x \<in> set (?N ?secs). x \<le> unat now" using le_now by (simp add: word_le_nat_alt)
    ultimately have "filter (\<lambda>x. unat ?lo \<le> x) (last60 (?N ?secs)) = filter (\<lambda>x. unat ?lo \<le> x) (?N ?secs)"
      by (intro filter_recent_last60)
    then have "?N (filter (\<lambda>s. ?lo \<le> s) (last60 ?secs)) = ?N (filter (\<lambda>s. ?lo \<le> s) ?secs)"
      by (simp add: eq last60_def drop_map)
    then show ?thesis by (rule map_injective) (simp add: inj_on_def word_unat_eq_iff)
  qed
  have "count_in_window (st_time_buckets (metrics_run ops (metrics_new t0))) now window
      = sum_list (map snd (filter (\<lambda>(s, _). ?lo \<le> s \<and> s \<le> now) (map ?f (last60 ?secs))))"
    by (simp add: count_in_window_points points_run sorted timeline_def last60_def drop_map)
  also have "\<dots> = sum_list (map (\<lambda>s. of_nat (in_sec s (recorded ops))) (filter (\<lambda>s. ?lo \<le> s) ?secs))"
  proof -
    have "\<forall>s \<in> set (last60 ?secs). s \<le> now"
      using le_now unfolding last60_def by (meson in_set_dropD)
    then have "filter (\<lambda>s. ?lo \<le> s \<and> s \<le> now) (last60 ?secs) = filter (\<lambda>s. ?lo \<le> s) (last60 ?secs)"
      by (intro filter_cong) auto
    then show ?thesis by (simp add: filter_map o_def recent)
  qed
  also have "\<dots> = of_nat (length (filter (\<lambda>(t, _). ?lo \<le> t div 1000) (recorded ops)))"
  proof -
    have "\<forall>(t, m) \<in> set (recorded ops). t div 1000 \<in> set ?secs"
      by (induction ops rule: recorded.induct) auto
    then have "\<forall>(t, m) \<in> set (recorded ops). ?lo \<le> t div 1000 \<longrightarrow> t div 1000 \<in> set ?secs" by auto
    from sum_in_sec [OF sorted_distinct_remdups_adj [OF sorted] this] show ?thesis
      by (simp add: sum_list_of_nat)
  qed
  finally show ?thesis by (simp add: lo)
qed

theorem count_in_window_exact_witness:
  "count_in_window (st_time_buckets (metrics_run
     [Record 2000 \<lparr>me_method = ''GET'', me_path = ''/a'', me_matched_route = None,
        me_upstream_target = [], me_status_code = 404, me_latency_ms = 3, me_error = None\<rparr>,
      Tick 3, Tick 6] (metrics_new 0))) 6 5 = 1"
  using count_in_window_exact [of "[Record 2000 \<lparr>me_method = ''GET'', me_path = ''/a'',
      me_matched_route = None, me_upstream_target = [], me_status_code = 404, me_latency_ms = 3,
      me_error = None\<rparr>, Tick 3, Tick 6]" 6 5 0]
  by (simp add: BUCKET_COUNT_def)

subsection \<open>Percentiles\<close>

text \<open>The exact nearest rank: the least integer that is at least \<open>p / 100 * n\<close>.\<close>

lemma f64_percent:
  assumes "p \<in> {50, 95, 99}"
  shows "0 < f64_div p 100" "f64_div p 100 \<le> p / 100"
    "(p / 100 - f64_div p 100) * 2 ^ 54 < p / 100"
proof -
  have "f64_round (1 / 2) = 1 / 2" by code_simp
  moreover have "f64_round (19 / 20) = 8556839292003942 / 2 ^ 53" by code_simp
  moreover have "f64_round (99 / 100) = 8917127262193582 / 2 ^ 53" by code_simp
  ultimately show "0 < f64_div p 100" "f64_div p 100 \<le> p / 100"
    "(p / 100 - f64_div p 100) * 2 ^ 54 < p / 100"
    using assms by (auto simp: f64_div_def)
qed

lemma ceiling_near_fraction:
  assumes "\<bar>x - of_int m / 100\<bar> < (1 / 100 :: rat)" "\<not> 100 dvd m"
  shows "\<lceil>x\<rceil> = \<lceil>of_int m / 100 :: rat\<rceil>"
proof -
  let ?d = "m div 100" and ?r = "m mod 100"
  have m: "of_int m = of_int ?d * 100 + (of_int ?r :: rat)"
    by (metis mult_div_mod_eq mult.commute of_int_add of_int_mult of_int_numeral)
  have r: "1 \<le> ?r" "?r \<le> 99" using assms(2) by presburger+
  have "(1 :: rat) \<le> of_int ?r" "of_int ?r \<le> (99 :: rat)" using r by linarith+
  then have "of_int ?d < x" "x \<le> of_int ?d + 1" "of_int ?d < (of_int m / 100 :: rat)"
    "of_int m / 100 \<le> (of_int ?d + 1 :: rat)"
    using assms(1) unfolding m by (auto simp: abs_less_iff field_simps)
  then have "\<lceil>x\<rceil> = ?d + 1" "\<lceil>of_int m / 100 :: rat\<rceil> = ?d + 1"
    by (simp_all add: ceiling_unique)
  then show ?thesis by (simp only:)
qed

lemma round_error_small:
  assumes "\<bar>y - q\<bar> \<le> q / 2 ^ 53" "q \<le> r" "(r - q) * 2 ^ 54 < r" "r \<le> (10000 :: rat)"
  shows "\<bar>y - r\<bar> < 1 / 100"
proof -
  have "q / 2 ^ 53 \<le> 1 / 1000" "r - q < 1 / 1000" using assms by simp_all
  then show ?thesis using assms(1,2) by linarith
qed

lemma percentile_rank_eq:
  assumes "p \<in> {50, 95, 99}" "0 < n" "n \<le> LATENCY_BUFFER_CAP"
  shows "percentile_rank n p = nat \<lceil>p / 100 * of_nat n\<rceil>"
proof -
  obtain k :: int where k: "p = of_int k" and "k \<in> {50, 95, 99}" using assms(1) by fastforce
  note c = f64_percent [OF assms(1)]
  let ?c = "f64_div p 100" and ?r = "p / 100 * of_nat n" and ?m = "k * int n"
  have n: "n \<le> 10000" "f64_of_nat n = of_nat n" using assms(3) by (simp_all add: LATENCY_BUFFER_CAP_def)
  have r: "?r = of_int ?m / 100" by (simp add: k)
  have q: "0 < ?c * of_nat n" "?c * of_nat n \<le> ?r" "(?r - ?c * of_nat n) * 2 ^ 54 < ?r"
  proof -
    have N: "0 < (of_nat n :: rat)" using assms(2) by simp
    show "0 < ?c * of_nat n" "?c * of_nat n \<le> ?r" using c N by simp_all
    have "(?r - ?c * of_nat n) * 2 ^ 54 = ((p / 100 - ?c) * 2 ^ 54) * of_nat n"
      by (simp add: algebra_simps)
    also have "\<dots> < ?r" using c(3) N by (rule mult_strict_right_mono)
    finally show "(?r - ?c * of_nat n) * 2 ^ 54 < ?r" .
  qed
  have r_le: "?r \<le> 10000"
  proof -
    have "(of_nat n :: rat) \<le> of_nat 10000" using n(1) by (simp only: of_nat_le_iff)
    then have "(of_nat n :: rat) \<le> 10000" by simp
    then have "?r \<le> 1 * 10000" using assms(1) by (intro mult_mono) auto
    then show ?thesis by simp
  qed
  have "\<lceil>f64_round (?c * of_nat n)\<rceil> = \<lceil>?r\<rceil>"
  proof (cases "100 dvd ?m")
    case True
    then obtain j where j: "?m = 100 * j" by blast
    then have "?r = of_int j" unfolding r by simp
    moreover have "j < 2 ^ 53"
    proof -
      have "(of_int j :: rat) \<le> 10000" using r_le \<open>?r = of_int j\<close> by simp
      then have "j \<le> 10000" by simp
      then show ?thesis by simp
    qed
    ultimately show ?thesis using f64_round_up_to_int [of "?c * of_nat n" j] q by simp
  next
    case False
    have "\<bar>f64_round (?c * of_nat n) - ?c * of_nat n\<bar> \<le> ?c * of_nat n / 2 ^ 53"
      using q(1) by (rule f64_round_error(2))
    then have "\<bar>f64_round (?c * of_nat n) - ?r\<bar> < 1 / 100"
      using q(2,3) r_le by (rule round_error_small)
    then show ?thesis using False ceiling_near_fraction unfolding r by blast
  qed
  then show ?thesis by (simp add: percentile_rank_def f64_mult_def n)
qed

text \<open>
  C32: in double precision the rank that the code computes by \<open>((p / 100.0) * n).ceil()\<close> is the exact
  nearest rank, the least integer not below \<open>p * n / 100\<close>, for each of the three percentiles and
  every number of latencies the buffer can hold: rounding never moves it. The index is in bounds.
\<close>

theorem percentile_nearest_rank:
  assumes "p \<in> {50, 95, 99}" "xs \<noteq> []" "length xs \<le> LATENCY_BUFFER_CAP"
  shows "percentile xs p = f64_of_nat (unat (xs ! (nat \<lceil>p * of_nat (length xs) / 100\<rceil> - 1))) \<and>
    nat \<lceil>p * of_nat (length xs) / 100\<rceil> - 1 < length xs"
proof -
  let ?k = "nat \<lceil>p * of_nat (length xs) / 100\<rceil>"
  have rank: "percentile_rank (length xs) p = ?k"
    using percentile_rank_eq [of p "length xs"] assms by (simp add: mult.commute)
  have "p * of_nat (length xs) / 100 \<le> of_nat (length xs)" using assms(1) by auto
  then have "\<lceil>p * of_nat (length xs) / 100\<rceil> \<le> int (length xs)"
    by (simp add: ceiling_le_iff)
  then have "?k - 1 < length xs" using assms(2) by (cases xs) auto
  then show ?thesis using assms(2) rank by (simp add: percentile_def Let_def min_def)
qed

theorem percentile_nearest_rank_witness: "percentile [10, 1000] 50 = 10"
  using percentile_nearest_rank [of 50 "[10, 1000]"]
  by (simp add: LATENCY_BUFFER_CAP_def)

end
