(* ===== verification/Http_Upstreams.thy ===== *)
theory Http_Upstreams
  imports Http_Protocol Config
begin

section \<open>HTTP, GraphQL and gRPC upstreams (src/gateway/http.rs, graphql.rs, grpc.rs)\<close>

text \<open>
  The three gateways that reach their backend through the reqwest client. The client is a parameter
  \<open>send\<close> that answers a request with a response or an error text. Each \<open>proxy\<close> checks its input,
  assembles one request, sends it and sanitises what comes back; the assembly is a definition of
  its own, so that a theorem can say what may reach the wire. What the three promise about the
  headers is the locale \<open>header_forwarding\<close>.
\<close>

subsection \<open>Requests and responses of the client\<close>

type_synonym headers = "(string \<times> string) list"

record http_request =
  hq_method :: string
  hq_url :: string
  hq_timeout_secs :: u64
  hq_headers :: headers
  hq_body :: bytes

text \<open>
  A header value that is not visible text reads as \<^const>\<open>None\<close>, and reading the body may fail.
\<close>

record http_response =
  hp_status :: u16
  hp_headers :: "(string \<times> string option) list"
  hp_body :: "string + bytes"

type_synonym http_client = "http_request \<Rightarrow> string + http_response"

type_synonym proxied = "u16 \<times> headers \<times> bytes"

definition response_headers :: "http_response \<Rightarrow> headers" where
  "response_headers response =
     strip_hop_by_hop_headers
       (List.map_filter (\<lambda>(k, v). map_option (Pair k) v) (hp_headers response))"

definition exchange :: "(string \<Rightarrow> error) \<Rightarrow> http_client \<Rightarrow> http_request \<Rightarrow> proxied result" where
  "exchange mk_error send req =
     (case send req of
        Inl e \<Rightarrow> Err (mk_error e)
      | Inr response \<Rightarrow>
          (case hp_body response of
             Inl e \<Rightarrow> Err (mk_error e)
           | Inr body \<Rightarrow> Ok (hp_status response, response_headers response, body)))"

definition is_http_url :: "string \<Rightarrow> bool" where
  "is_http_url url \<longleftrightarrow> starts_with url ''http://'' \<or> starts_with url ''https://''"

subsection \<open>HttpGateway::proxy\<close>

definition http_forward_headers :: "headers \<Rightarrow> headers" where
  "http_forward_headers hs =
     filter (\<lambda>(name, _). let lower = to_lowercase name in
               lower \<noteq> ''host'' \<and> lower \<noteq> ''content-length'')
       (strip_hop_by_hop_headers hs)"

definition http_target_url :: "string \<Rightarrow> string \<Rightarrow> string option \<Rightarrow> string" where
  "http_target_url target_base path query =
     (case query of
        Some q \<Rightarrow> trim_end_matches target_base CHR ''/'' @ path @ ''?'' @ q
      | None \<Rightarrow> trim_end_matches target_base CHR ''/'' @ path)"

definition http_assemble ::
  "string \<Rightarrow> string \<Rightarrow> string \<Rightarrow> string option \<Rightarrow> headers \<Rightarrow> bytes \<Rightarrow> u64 \<Rightarrow> http_request result" where
  "http_assemble req_method target_base path query hs body timeout_secs =
     (if \<not> is_http_url target_base
      then Err (Protocol ''target_base must start with http:// or https://'')
      else if path_contains_traversal path then Err (Protocol ''invalid path'')
      else if \<not> path_is_safe path then Err (Protocol ''invalid path'')
      else if (case query of Some q \<Rightarrow> \<not> query_is_safe q | None \<Rightarrow> False)
      then Err (Protocol ''invalid query'')
      else Ok \<lparr>hq_method = req_method, hq_url = http_target_url target_base path query,
               hq_timeout_secs = timeout_secs, hq_headers = http_forward_headers hs, hq_body = body\<rparr>)"

definition http_proxy ::
  "http_client \<Rightarrow> string \<Rightarrow> string \<Rightarrow> string \<Rightarrow> string option \<Rightarrow> headers \<Rightarrow> bytes \<Rightarrow> u64
     \<Rightarrow> proxied result" where
  "http_proxy send req_method target_base path query hs body timeout_secs =
     and_then (http_assemble req_method target_base path query hs body timeout_secs)
       (exchange Protocol send)"

subsection \<open>GraphQLGateway::proxy\<close>

definition graphql_forward_headers :: "headers \<Rightarrow> headers" where
  "graphql_forward_headers hs =
     filter (\<lambda>(name, _). let lower = to_lowercase name in
               lower \<noteq> ''host'' \<and> lower \<noteq> ''content-type'' \<and> lower \<noteq> ''content-length'')
       (strip_hop_by_hop_headers hs)"

definition graphql_assemble :: "string \<Rightarrow> headers \<Rightarrow> bytes \<Rightarrow> u64 \<Rightarrow> http_request result" where
  "graphql_assemble target_url hs body timeout_secs =
     (if \<not> is_http_url target_url
      then Err (GraphQL_Error ''GraphQL target URL must start with http:// or https://'')
      else Ok \<lparr>hq_method = ''POST'', hq_url = target_url, hq_timeout_secs = timeout_secs,
               hq_headers = (''content-type'', ''application/json'') # graphql_forward_headers hs,
               hq_body = body\<rparr>)"

definition graphql_proxy ::
  "http_client \<Rightarrow> string \<Rightarrow> headers \<Rightarrow> bytes \<Rightarrow> u64 \<Rightarrow> proxied result" where
  "graphql_proxy send target_url hs body timeout_secs =
     and_then (graphql_assemble target_url hs body timeout_secs) (exchange GraphQL_Error send)"

subsection \<open>GrpcGateway::proxy\<close>

definition grpc_forward_headers :: "headers \<Rightarrow> headers" where
  "grpc_forward_headers hs =
     filter (\<lambda>(name, _). let lower = to_lowercase name in
               lower \<noteq> ''host'' \<and> lower \<noteq> ''content-type'' \<and> lower \<noteq> ''content-length''
               \<and> lower \<noteq> ''te'')
       (strip_hop_by_hop_headers hs)"

definition grpc_assemble :: "string \<Rightarrow> string \<Rightarrow> headers \<Rightarrow> bytes \<Rightarrow> u64 \<Rightarrow> http_request result" where
  "grpc_assemble target_base path hs body timeout_secs =
     (if \<not> is_http_url target_base
      then Err (Protocol ''gRPC target URL must start with http:// or https://'')
      else if path_contains_traversal path then Err (Protocol ''invalid path'')
      else if \<not> path_is_safe path then Err (Protocol ''invalid path'')
      else Ok \<lparr>hq_method = ''POST'', hq_url = trim_end_matches target_base CHR ''/'' @ path,
               hq_timeout_secs = timeout_secs,
               hq_headers = (''content-type'', ''application/grpc'') # (''te'', ''trailers'')
                              # grpc_forward_headers hs,
               hq_body = body\<rparr>)"

definition grpc_proxy ::
  "http_client \<Rightarrow> string \<Rightarrow> string \<Rightarrow> headers \<Rightarrow> bytes \<Rightarrow> u64 \<Rightarrow> proxied result" where
  "grpc_proxy send target_base path hs body timeout_secs =
     and_then (grpc_assemble target_base path hs body timeout_secs) (exchange Protocol send)"

subsection \<open>What the three forward of the client's headers\<close>

locale header_forwarding =
  fixes forward :: "headers \<Rightarrow> headers" and dropped :: "string set"
  assumes forward_iff:
    "(n, v) \<in> set (forward hs) \<longleftrightarrow>
       (n, v) \<in> set hs \<and> to_lowercase n \<notin> set HOP_BY_HOP \<and> to_lowercase n \<notin> dropped"
    and keeps_order: "\<exists>P. forward hs = filter P hs"
    and drops_host: "''host'' \<in> dropped" "''content-length'' \<in> dropped"
begin

definition clean :: "headers \<Rightarrow> bool" where
  "clean hs \<longleftrightarrow> (\<forall>(n, v) \<in> set hs. to_lowercase n \<notin> set HOP_BY_HOP \<union> dropped)"

lemma forward_clean: "clean (forward hs)"
  by (auto simp: clean_def forward_iff)

lemma forward_no_host:
  assumes "(n, v) \<in> set (forward hs)"
  shows "to_lowercase n \<notin> set HOP_BY_HOP \<union> {''host'', ''content-length''}"
  using assms drops_host by (auto simp: forward_iff)

lemma forward_subset: "set (forward hs) \<subseteq> set hs"
  using forward_iff by auto

lemma forward_idem: "forward (forward hs) = forward hs"
proof -
  obtain P where P: "forward (forward hs) = filter P (forward hs)" using keeps_order by blast
  have "(n, v) \<in> set (forward (forward hs))" if "(n, v) \<in> set (forward hs)" for n v
    using that by (simp add: forward_iff)
  then have "\<forall>h \<in> set (forward hs). P h" unfolding P by auto
  then show ?thesis unfolding P by (simp add: filter_id_conv)
qed

end

interpretation http_headers: header_forwarding http_forward_headers "{''host'', ''content-length''}"
proof unfold_locales
  show "\<exists>P. http_forward_headers hs = filter P hs" for hs
    unfolding http_forward_headers_def strip_hop_by_hop_headers_def filter_filter by blast
qed (auto simp: http_forward_headers_def strip_hop_by_hop_headers_def Let_def)

interpretation graphql_headers: header_forwarding graphql_forward_headers
  "{''host'', ''content-type'', ''content-length''}"
proof unfold_locales
  show "\<exists>P. graphql_forward_headers hs = filter P hs" for hs
    unfolding graphql_forward_headers_def strip_hop_by_hop_headers_def filter_filter by blast
qed (auto simp: graphql_forward_headers_def strip_hop_by_hop_headers_def Let_def)

interpretation grpc_headers: header_forwarding grpc_forward_headers
  "{''host'', ''content-type'', ''content-length'', ''te''}"
proof unfold_locales
  show "\<exists>P. grpc_forward_headers hs = filter P hs" for hs
    unfolding grpc_forward_headers_def strip_hop_by_hop_headers_def filter_filter by blast
qed (auto simp: grpc_forward_headers_def strip_hop_by_hop_headers_def Let_def)

subsection \<open>The authority of the target\<close>

text \<open>
  The authority of an http or https URL: what stands between the scheme's two slashes and the first
  slash, backslash, question mark or number sign.
\<close>

definition ends_authority :: "char \<Rightarrow> bool" where
  "ends_authority c \<longleftrightarrow> c = CHR ''/'' \<or> c = CHR ''?'' \<or> c = CHR ''#'' \<or> byte_of c = 92"

definition url_authority :: "string \<Rightarrow> string option" where
  "url_authority url =
     (case strip_prefix_str url ''http://'' of
        Some rest \<Rightarrow> Some (takeWhile (\<lambda>c. \<not> ends_authority c) rest)
      | None \<Rightarrow> map_option (takeWhile (\<lambda>c. \<not> ends_authority c)) (strip_prefix_str url ''https://''))"

lemma trim_end_matches_append:
  "trim_end_matches (xs @ ys) c =
     (if trim_end_matches ys c = [] then trim_end_matches xs c else xs @ trim_end_matches ys c)"
  by (simp add: trim_end_matches_def dropWhile_append dropWhile_eq_Nil_conv)

lemma trim_end_matches_id: "xs \<noteq> [] \<Longrightarrow> last xs \<noteq> c \<Longrightarrow> trim_end_matches xs c = xs"
  by (cases xs rule: rev_cases) (simp_all add: trim_end_matches_def)

lemma hd_trim_end_matches: "trim_end_matches xs c \<noteq> [] \<Longrightarrow> hd (trim_end_matches xs c) = hd xs"
proof -
  assume "trim_end_matches xs c \<noteq> []"
  moreover have "prefix (trim_end_matches xs c) xs"
    by (metis trim_end_matches_def rev_rev_ident suffix_dropWhile suffix_to_prefix)
  ultimately show ?thesis by (metis hd_append2 prefix_def)
qed

lemma takeWhile_stop: "\<forall>x \<in> set a. P x \<Longrightarrow> r = [] \<or> \<not> P (hd r) \<Longrightarrow> takeWhile P (a @ r) = a"
  by (cases r) (auto simp: takeWhile_append2)

text \<open>A path that starts with a slash, put behind a base with a host, leaves the host alone.\<close>

lemma authority_after_scheme:
  assumes "a = takeWhile (\<lambda>c. \<not> ends_authority c) rest" "a \<noteq> []" "starts_with path ''/''"
  obtains r where "trim_end_matches (scheme @ rest) CHR ''/'' @ path = scheme @ r"
    and "takeWhile (\<lambda>c. \<not> ends_authority c) r = a"
proof -
  define tail where "tail = dropWhile (\<lambda>c. \<not> ends_authority c) rest"
  have rest: "rest = a @ tail" using assms(1) by (simp add: tail_def)
  have a: "\<forall>c \<in> set a. \<not> ends_authority c" using assms(1) by (auto dest: set_takeWhileD)
  have "last a \<noteq> CHR ''/''" using a assms(2) by (auto simp: ends_authority_def)
  then have trim: "trim_end_matches (scheme @ a @ tail) CHR ''/'' = scheme @ a @ trim_end_matches tail CHR ''/''"
    using assms(2) by (simp add: trim_end_matches_append [of scheme] trim_end_matches_append [of a]
        trim_end_matches_id)
  let ?t = "trim_end_matches tail CHR ''/''"
  have "ends_authority (hd (?t @ path))"
  proof (cases "?t = []")
    case True
    then show ?thesis using assms(3) by (auto simp: prefix_def ends_authority_def)
  next
    case False
    then have "tail \<noteq> []" by (auto simp: trim_end_matches_def)
    then have "ends_authority (hd tail)" using hd_dropWhile [of "\<lambda>c. \<not> ends_authority c" rest]
      by (simp add: tail_def)
    then show ?thesis using False hd_trim_end_matches by simp
  qed
  then have "takeWhile (\<lambda>c. \<not> ends_authority c) (a @ ?t @ path) = a"
    using takeWhile_stop [OF a, of "?t @ path"] by simp
  then show thesis by (rule that [rotated]) (simp add: rest trim)
qed

lemma url_authority_schemes:
  "url_authority (''http://'' @ r) = Some (takeWhile (\<lambda>c. \<not> ends_authority c) r)"
  "url_authority (''https://'' @ r) = Some (takeWhile (\<lambda>c. \<not> ends_authority c) r)"
  by (simp_all add: url_authority_def strip_prefix_str_def)

lemma authority_preserved:
  assumes "is_http_url base" "url_authority base \<noteq> Some []" "starts_with path ''/''"
  shows "url_authority (trim_end_matches base CHR ''/'' @ path) = url_authority base"
proof -
  obtain scheme rest where base: "base = scheme @ rest" and scheme: "scheme \<in> {''http://'', ''https://''}"
    using assms(1) unfolding is_http_url_def prefix_def by blast
  have eq: "url_authority (scheme @ r) = Some (takeWhile (\<lambda>c. \<not> ends_authority c) r)" for r
    using scheme url_authority_schemes by blast
  have "takeWhile (\<lambda>c. \<not> ends_authority c) rest \<noteq> []" using assms(2) unfolding base eq by simp
  from authority_after_scheme [OF refl this assms(3), of scheme] obtain r
    where "trim_end_matches base CHR ''/'' @ path = scheme @ r"
      and "takeWhile (\<lambda>c. \<not> ends_authority c) r = takeWhile (\<lambda>c. \<not> ends_authority c) rest"
    unfolding base by blast
  then show ?thesis unfolding base by (simp only: eq)
qed

lemma path_is_safe_starts: "path_is_safe path \<Longrightarrow> starts_with path ''/''"
  by (simp add: path_is_safe_def)

text \<open>
  C12: what the HTTP gateway may send. Whenever it assembles a request, the authority of the URL is
  that of the configured base, whatever the client's path and query hold, if the base names a host
  at all; the path has no parent segment in any encoding and neither it nor the query has control
  characters or blanks; method, body and timeout are the given ones, and the headers are those of
  the client without the hop-by-hop ones, Host and Content-Length.
\<close>

theorem http_request_confined:
  assumes "http_assemble req_method base path query hs body timeout = Ok req"
    and "url_authority base \<noteq> Some []"
  shows "url_authority (hq_url req) = url_authority base \<and>
    starts_with (hq_url req) (trim_end_matches base CHR ''/'' @ path) \<and>
    \<not> path_contains_traversal path \<and> path_is_safe path \<and> pred_option query_is_safe query \<and>
    hq_method req = req_method \<and> hq_body req = body \<and> hq_timeout_secs req = timeout \<and>
    (n, v) \<in> set (hq_headers req) =
      ((n, v) \<in> set hs \<and> to_lowercase n \<notin> set HOP_BY_HOP \<union> {''host'', ''content-length''})"
proof -
  have ok: "is_http_url base" "\<not> path_contains_traversal path" "path_is_safe path"
    "pred_option query_is_safe query"
    "req = \<lparr>hq_method = req_method, hq_url = http_target_url base path query,
        hq_timeout_secs = timeout, hq_headers = http_forward_headers hs, hq_body = body\<rparr>"
    using assms(1) by (auto simp: http_assemble_def split: if_splits option.splits)
  have "\<exists>tl. http_target_url base path query = trim_end_matches base CHR ''/'' @ path @ tl"
    by (cases query) (auto simp: http_target_url_def)
  then obtain tl where url: "hq_url req = trim_end_matches base CHR ''/'' @ path @ tl" using ok by auto
  have "url_authority (hq_url req) = url_authority base"
    unfolding url using ok path_is_safe_starts [OF ok(3)] assms(2) by (intro authority_preserved) simp_all
  then show ?thesis using ok url by (auto simp: http_headers.forward_iff)
qed

theorem http_request_confined_witness:
  "url_authority (hq_url
     \<lparr>hq_method = ''GET'', hq_url = ''http://api:9000/@evil.com?q=1'', hq_timeout_secs = 30,
      hq_headers = [(''accept'', ''text/html'')], hq_body = []\<rparr>) = url_authority ''http://api:9000/''"
proof -
  have "http_assemble ''GET'' ''http://api:9000/'' ''/@evil.com'' (Some ''q=1'')
      [(''Host'', ''evil.com''), (''accept'', ''text/html'')] [] 30 =
    Ok \<lparr>hq_method = ''GET'', hq_url = ''http://api:9000/@evil.com?q=1'', hq_timeout_secs = 30,
      hq_headers = [(''accept'', ''text/html'')], hq_body = []\<rparr>"
    by code_simp
  moreover have "url_authority ''http://api:9000/'' \<noteq> Some []" by code_simp
  ultimately show ?thesis using http_request_confined by blast
qed

text \<open>The same for gRPC, which adds its own content type and \<open>te\<close> header and always posts.\<close>

lemma grpc_request_confined:
  assumes "grpc_assemble base path hs body timeout = Ok req" "url_authority base \<noteq> Some []"
  shows "url_authority (hq_url req) = url_authority base \<and> hq_method req = ''POST''"
  using assms path_is_safe_starts
  by (auto simp: grpc_assemble_def authority_preserved split: if_splits)

text \<open>
  Without a host in the base the guard does not hold: trimming the slashes of \<open>http://\<close>, which
  validation accepts, leaves a URL whose host is for the URL parser to find in the path.
\<close>

lemma hostless_base_url:
  "http_target_url ''http://'' ''/evil.com/x'' None = ''http:/evil.com/x''"
  by code_simp

subsection \<open>When a request is assembled\<close>

lemma http_url_scheme: "http_url url \<Longrightarrow> is_http_url url"
  by (auto simp: url_with_def is_http_url_def)

lemma http_assemble_ok_iff:
  "is_http_url base \<Longrightarrow> is_ok (http_assemble m base path query hs body timeout) \<longleftrightarrow>
     \<not> path_contains_traversal path \<and> path_is_safe path \<and> pred_option query_is_safe query"
  by (auto simp: http_assemble_def split: option.splits)

lemma grpc_assemble_ok_iff:
  "is_http_url base \<Longrightarrow> is_ok (grpc_assemble base path hs body timeout) \<longleftrightarrow>
     \<not> path_contains_traversal path \<and> path_is_safe path"
  by (simp add: grpc_assemble_def)

end
