(* ===== verification/Brokers.thy ===== *)
theory Brokers
  imports Config
begin

section \<open>Publishing to MQTT, AMQP and ZeroMQ (src/gateway/mqtt.rs, amqp.rs, zmq.rs)\<close>

text \<open>
  The broker clients are other people's code: rumqttc, lapin and zeromq. What a call of theirs
  returns is an argument, an \<open>outcome\<close> that is a value, an error text, or nothing before the
  surrounding \<open>timeout\<close> expires. The definitions say what the gateway does with those answers, and
  the theorems when it may report success.
\<close>

datatype 'a outcome = Done 'a | Failed string | Hangs

text \<open>A step of a future under \<open>tokio::time::timeout\<close>: the first that hangs makes the timeout fire.\<close>

fun step_in_time :: "'a outcome \<Rightarrow> (string \<Rightarrow> error) \<Rightarrow> error \<Rightarrow> ('a \<Rightarrow> 'b result) \<Rightarrow> 'b result" where
  "step_in_time (Done x) mk_error timeout k = k x"
| "step_in_time (Failed e) mk_error timeout k = Err (mk_error e)"
| "step_in_time Hangs mk_error timeout k = Err timeout"

lemma step_in_time_Ok_iff [simp]:
  "step_in_time r mk_error timeout k = Ok y \<longleftrightarrow> (\<exists>x. r = Done x \<and> k x = Ok y)"
  by (cases r) auto

subsection \<open>MQTT\<close>

record broker_endpoint =
  be_host :: string
  be_port :: u16
  be_tls :: bool

datatype qos = AtMostOnce | AtLeastOnce | ExactlyOnce

definition qos_from_u8 :: "u8 \<Rightarrow> qos result" where
  "qos_from_u8 q =
     (if q = 0 then Ok AtMostOnce else if q = 1 then Ok AtLeastOnce else if q = 2 then Ok ExactlyOnce
      else Err (Config_Error ''MQTT QoS must be 0, 1, or 2''))"

fun qos_to_u8 :: "qos \<Rightarrow> u8" where
  "qos_to_u8 AtMostOnce = 0"
| "qos_to_u8 AtLeastOnce = 1"
| "qos_to_u8 ExactlyOnce = 2"

definition split_host_port :: "string \<Rightarrow> (string \<times> u16) option" where
  "split_host_port input =
     (case strip_prefix_str input ''['' of
        Some rest \<Rightarrow>
          (case split_at_first CHR '']'' rest of
             None \<Rightarrow> None
           | Some (host, after) \<Rightarrow>
               (case strip_prefix_str after '':'' of
                  None \<Rightarrow> None
                | Some port_str \<Rightarrow> map_option (\<lambda>p. (host, word_of_nat p)) (parse_unsigned 16 port_str)))
      | None \<Rightarrow>
          (case split_at_last CHR '':'' input of
             None \<Rightarrow> None
           | Some (host, port_str) \<Rightarrow>
               (case parse_unsigned 16 port_str of
                  None \<Rightarrow> None
                | Some p \<Rightarrow> if host = [] then None else Some (host, word_of_nat p))))"

definition broker_scheme :: "string \<Rightarrow> (bool \<times> string) option" where
  "broker_scheme url =
     (case strip_prefix_str url ''mqtt://'' of Some rest \<Rightarrow> Some (False, rest) | None \<Rightarrow>
     (case strip_prefix_str url ''tcp://'' of Some rest \<Rightarrow> Some (False, rest) | None \<Rightarrow>
     (case strip_prefix_str url ''mqtts://'' of Some rest \<Rightarrow> Some (True, rest) | None \<Rightarrow>
     (case strip_prefix_str url ''ssl://'' of Some rest \<Rightarrow> Some (True, rest) | None \<Rightarrow> None))))"

definition parse_broker_url :: "string \<Rightarrow> broker_endpoint result" where
  "parse_broker_url url =
     (case broker_scheme url of
        None \<Rightarrow> Err (Config_Error (''MQTT broker URL '' @ [CHR 0x27] @ url @ [CHR 0x27]
                  @ '' must start with mqtt://, mqtts://, tcp://, or ssl://''))
      | Some (tls, rest) \<Rightarrow>
          if rest = [] then Err (Config_Error ''MQTT broker URL must include a host'')
          else if CHR ''/'' \<in> set rest \<or> CHR ''?'' \<in> set rest \<or> CHR ''#'' \<in> set rest
          then Err (Config_Error (''MQTT broker URL '' @ [CHR 0x27] @ url @ [CHR 0x27]
                      @ '' must be in scheme://host:port form''))
          else (case split_host_port rest of
                  None \<Rightarrow> Err (Config_Error (''MQTT broker URL '' @ [CHR 0x27] @ url @ [CHR 0x27]
                            @ '' must include an explicit host and port''))
                | Some (host, port) \<Rightarrow> Ok \<lparr>be_host = host, be_port = port, be_tls = tls\<rparr>))"

text \<open>The process-wide counter behind generated client ids and consumer tags.\<close>

definition next_client_id :: "string \<Rightarrow> u64 \<Rightarrow> string \<times> u64" where
  "next_client_id id_prefix counter = (id_prefix @ ''-'' @ show_nat (unat counter), counter + 1)"

text \<open>rumqttc's connection options, as far as the code sets them; the rest keeps the crate's defaults.\<close>

record mqtt_connect_options =
  co_client_id :: string
  co_host :: string
  co_port :: u16
  co_tls :: bool
  co_keep_alive_secs :: "u64 option"

definition mqtt_options :: "broker_endpoint \<Rightarrow> string \<Rightarrow> mqtt_connect_options" where
  "mqtt_options endpoint client_id =
     \<lparr>co_client_id = client_id, co_host = be_host endpoint, co_port = be_port endpoint, co_tls = be_tls endpoint,
      co_keep_alive_secs = None\<rparr>"

text \<open>
  What \<open>eventloop.poll()\<close> yields: the packets that matter to the publisher, any other event, or an
  error. A run of the loop is the list of the events before the timeout expires.
\<close>

datatype mqtt_event = Out_Publish | In_PubAck | In_PubComp | Out_Disconnect | Other_Event | Poll_Error string

fun acknowledges :: "qos \<Rightarrow> mqtt_event \<Rightarrow> bool" where
  "acknowledges AtMostOnce e = (e = Out_Publish)"
| "acknowledges AtLeastOnce e = (e = In_PubAck)"
| "acknowledges ExactlyOnce e = (e = In_PubComp)"

fun await_ack :: "qos \<Rightarrow> mqtt_event list \<Rightarrow> (mqtt_event list) outcome" where
  "await_ack q [] = Hangs"
| "await_ack q (e # es) =
     (if acknowledges q e then Done es
      else case e of Poll_Error m \<Rightarrow> Failed m | _ \<Rightarrow> await_ack q es)"

fun await_disconnect :: "mqtt_event list \<Rightarrow> unit outcome" where
  "await_disconnect [] = Hangs"
| "await_disconnect (e # es) =
     (case e of Out_Disconnect \<Rightarrow> Done () | Poll_Error m \<Rightarrow> Done () | _ \<Rightarrow> await_disconnect es)"

definition mqtt_timeout :: "mqtt_transport_config \<Rightarrow> error" where
  "mqtt_timeout cfg =
     Protocol (''MQTT publish timed out after '' @ show_nat (unat (mt_timeout_secs cfg)) @ ''s'')"

text \<open>
  The client as the publisher sees it: queueing the publish packet (connection options, topic,
  quality of service, retain flag, payload), the events, queueing the disconnect.
\<close>

record mqtt_client =
  mqc_publish :: "mqtt_connect_options \<Rightarrow> string \<Rightarrow> qos \<Rightarrow> bool \<Rightarrow> bytes \<Rightarrow> unit outcome"
  mqc_events :: "mqtt_event list"
  mqc_disconnect :: "unit outcome"

definition mqtt_exchange ::
  "mqtt_client \<Rightarrow> mqtt_transport_config \<Rightarrow> mqtt_connect_options \<Rightarrow> qos \<Rightarrow> bytes \<Rightarrow> unit result" where
  "mqtt_exchange client cfg options q body =
     step_in_time (mqc_publish client options (mt_topic cfg) q (mt_retain cfg) body)
       (\<lambda>e. Protocol (''MQTT publish failed: '' @ e)) (mqtt_timeout cfg) (\<lambda>_.
     step_in_time (await_ack q (mqc_events client))
       (\<lambda>e. Protocol (''MQTT event loop failed during publish: '' @ e)) (mqtt_timeout cfg) (\<lambda>rest.
     case mqc_disconnect client of
       Failed e \<Rightarrow> Ok ()
     | Hangs \<Rightarrow> Err (mqtt_timeout cfg)
     | Done _ \<Rightarrow> step_in_time (await_disconnect rest) Protocol (mqtt_timeout cfg) Ok))"

definition mqtt_publish ::
  "mqtt_client \<Rightarrow> u64 \<Rightarrow> mqtt_transport_config \<Rightarrow> bytes \<Rightarrow> unit result \<times> u64" where
  "mqtt_publish client counter cfg body =
     (case parse_broker_url (mt_broker_url cfg) of
        Err e \<Rightarrow> (Err e, counter)
      | Ok endpoint \<Rightarrow>
          (case qos_from_u8 (mt_qos cfg) of
             Err e \<Rightarrow> (Err e, counter)
           | Ok q \<Rightarrow>
               (case (case mt_client_id cfg of
                        Some c \<Rightarrow> (c, counter)
                      | None \<Rightarrow> next_client_id ''iron-babel-pub'' counter) of
                  (client_id, counter') \<Rightarrow>
                    let options = (mqtt_options endpoint client_id)\<lparr>co_keep_alive_secs := Some 5\<rparr>
                    in (mqtt_exchange client cfg options q body, counter'))))"

subsection \<open>AMQP\<close>

text \<open>lapin's publisher confirmation; a message comes back with it when no queue took it.\<close>

record returned_message =
  rm_reply_code :: u16
  rm_reply_text :: string

datatype confirmation =
    Confirm_Ack "returned_message option" | Confirm_Nack "returned_message option" | Not_Requested

fun is_nack :: "confirmation \<Rightarrow> bool" where
  "is_nack (Confirm_Nack m) = True"
| "is_nack c = False"

fun take_message :: "confirmation \<Rightarrow> returned_message option" where
  "take_message (Confirm_Ack m) = m"
| "take_message (Confirm_Nack m) = m"
| "take_message Not_Requested = None"

record amqp_properties =
  ap_delivery_mode :: "u8 option"
  ap_content_type :: "string option"

definition amqp_properties_of :: "amqp_transport_config \<Rightarrow> amqp_properties" where
  "amqp_properties_of cfg =
     \<lparr>ap_delivery_mode = (if at_persistent cfg then Some 2 else None),
      ap_content_type = at_content_type cfg\<rparr>"

text \<open>
  The operations of a publishing session, in the order the code awaits them. What lapin and the broker
  answer to one may depend on those that went before it on the connection: a confirmation, say, is
  real only on a channel in confirm mode.
\<close>

datatype amqp_op =
    Op_Connect string
  | Op_Create_Channel
  | Op_Confirm_Select
  | Op_Basic_Publish string string bool bytes amqp_properties
  | Op_Await_Confirm
  | Op_Close u16 string

record amqp_broker =
  ab_answer :: "amqp_op list \<Rightarrow> amqp_op \<Rightarrow> unit outcome"
  ab_confirmation :: "amqp_op list \<Rightarrow> confirmation outcome"

definition amqp_timeout :: "amqp_transport_config \<Rightarrow> error" where
  "amqp_timeout cfg =
     Protocol (''AMQP publish timed out after '' @ show_nat (unat (at_timeout_secs cfg)) @ ''s'')"

definition amqp_refusal :: "amqp_transport_config \<Rightarrow> string \<Rightarrow> error" where
  "amqp_refusal cfg why =
     Protocol (''AMQP publish to exchange '' @ [CHR 0x27] @ at_exchange cfg @ [CHR 0x27]
       @ '' with routing key '' @ [CHR 0x27] @ at_routing_key cfg @ [CHR 0x27] @ why)"

text \<open>
  One awaited operation under the timeout: \<open>past\<close> are the operations before it, and the session goes on with
  those after it. The result comes with the operations that were carried out.
\<close>

definition amqp_await ::
  "amqp_broker \<Rightarrow> error \<Rightarrow> string \<Rightarrow> amqp_op list \<Rightarrow> amqp_op
     \<Rightarrow> (amqp_op list \<Rightarrow> unit result \<times> amqp_op list) \<Rightarrow> unit result \<times> amqp_op list" where
  "amqp_await broker timeout failure past op k =
     (case ab_answer broker past op of
        Done _ \<Rightarrow> k (past @ [op])
      | Failed e \<Rightarrow> (Err (Protocol (failure @ e)), past @ [op])
      | Hangs \<Rightarrow> (Err timeout, past @ [op]))"

definition amqp_confirmed ::
  "amqp_broker \<Rightarrow> amqp_transport_config \<Rightarrow> amqp_op list \<Rightarrow> unit result \<times> amqp_op list" where
  "amqp_confirmed broker cfg past =
     (let past' = past @ [Op_Await_Confirm] in
      case ab_confirmation broker past of
        Failed e \<Rightarrow> (Err (Protocol (''AMQP publish confirm failed: '' @ e)), past')
      | Hangs \<Rightarrow> (Err (amqp_timeout cfg), past')
      | Done c \<Rightarrow>
          if is_nack c then (Err (amqp_refusal cfg '' was nacked by the broker''), past')
          else case take_message c of
                 Some m \<Rightarrow> (Err (amqp_refusal cfg ('' was returned undelivered: ''
                             @ show_nat (unat (rm_reply_code m)) @ '' '' @ rm_reply_text m)), past')
               | None \<Rightarrow>
                   amqp_await broker (amqp_timeout cfg) ''AMQP close failed: '' past' (Op_Close 200 ''publish complete'')
                     (\<lambda>past. (Ok (), past)))"

definition amqp_publish :: "amqp_broker \<Rightarrow> amqp_transport_config \<Rightarrow> bytes \<Rightarrow> unit result \<times> amqp_op list" where
  "amqp_publish broker cfg body =
     (let await = amqp_await broker (amqp_timeout cfg) in
      await ''AMQP connect failed: '' [] (Op_Connect (at_broker_url cfg)) (\<lambda>past.
      await ''AMQP create channel failed: '' past Op_Create_Channel (\<lambda>past.
      let properties = amqp_properties_of cfg in
      await ''AMQP enable publisher confirms failed: '' past Op_Confirm_Select (\<lambda>past.
      await ''AMQP publish failed: '' past
        (Op_Basic_Publish (at_exchange cfg) (at_routing_key cfg) (at_mandatory cfg) body properties) (\<lambda>past.
      amqp_confirmed broker cfg past)))))"

subsection \<open>ZeroMQ\<close>

definition to_tcp_addr :: "string \<Rightarrow> string" where
  "to_tcp_addr addr =
     (if starts_with addr ''zmq://'' then str_replace_first ''zmq://'' ''tcp://'' addr
      else if starts_with addr ''tcp://'' then addr
      else ''tcp://'' @ addr)"

type_synonym zmq_message = "bytes list"

definition msg_to_bytes :: "zmq_message \<Rightarrow> bytes" where
  "msg_to_bytes msg = concat msg"

text \<open>
  A socket: what connecting to an address, sending a message and receiving one return. Only the
  receive is under a timeout.
\<close>

record zmq_socket =
  zs_connect :: "string \<Rightarrow> string + unit"
  zs_send :: "zmq_message \<Rightarrow> string + unit"
  zs_recv :: "zmq_message outcome"

definition connect_and_send :: "zmq_socket \<Rightarrow> string \<Rightarrow> zmq_message \<Rightarrow> unit result" where
  "connect_and_send socket addr msg =
     (case zs_connect socket addr of
        Inl e \<Rightarrow> Err (Protocol (''ZMQ connect failed ('' @ addr @ ''): '' @ e))
      | Inr _ \<Rightarrow>
          (case zs_send socket msg of
             Inl e \<Rightarrow> Err (Protocol (''ZMQ send failed: '' @ e))
           | Inr _ \<Rightarrow> Ok ()))"

definition forward_req_rep :: "zmq_socket \<Rightarrow> string \<Rightarrow> bytes \<Rightarrow> u64 \<Rightarrow> bytes result" where
  "forward_req_rep socket target body timeout_secs =
     (let addr = to_tcp_addr target in
      and_then (connect_and_send socket addr [body]) (\<lambda>_.
      step_in_time (zs_recv socket) (\<lambda>e. Protocol (''ZMQ recv failed: '' @ e))
        (Protocol (''ZMQ REQ/REP timeout after '' @ show_nat (unat timeout_secs)
           @ ''s waiting for reply from '' @ addr))
        (\<lambda>reply. Ok (msg_to_bytes reply))))"

definition forward_push :: "zmq_socket \<Rightarrow> string \<Rightarrow> bytes \<Rightarrow> unit result" where
  "forward_push socket target body = connect_and_send socket (to_tcp_addr target) [body]"

definition pub_message :: "string option \<Rightarrow> bytes \<Rightarrow> zmq_message" where
  "pub_message topic body = as_bytes (case topic of Some t \<Rightarrow> t | None \<Rightarrow> []) # [body]"

definition forward_pub :: "zmq_socket \<Rightarrow> string \<Rightarrow> bytes \<Rightarrow> string option \<Rightarrow> unit result" where
  "forward_pub socket target body topic =
     connect_and_send socket (to_tcp_addr target) (pub_message topic body)"

subsection \<open>When publishing succeeds\<close>

text \<open>
  A broker address in its own terms: one of four schemes, two of which ask for encryption, then a host and a port,
  with square brackets around a host that may hold colons, and no path, query or fragment.
\<close>

definition broker_address :: "string \<Rightarrow> string \<Rightarrow> u16 \<Rightarrow> bool \<Rightarrow> bool" where
  "broker_address url host port tls \<longleftrightarrow>
     (\<exists>scheme address digits.
        url = scheme @ address \<and>
        (scheme, tls) \<in> {(''mqtt://'', False), (''tcp://'', False), (''mqtts://'', True), (''ssl://'', True)} \<and>
        CHR ''/'' \<notin> set address \<and> CHR ''?'' \<notin> set address \<and> CHR ''#'' \<notin> set address \<and>
        parse_unsigned 16 digits = Some (unat port) \<and>
        (address = ''['' @ host @ '']:'' @ digits \<and> CHR '']'' \<notin> set host \<or>
         address = host @ '':'' @ digits \<and> host \<noteq> [] \<and> hd host \<noteq> CHR ''['' \<and> CHR '':'' \<notin> set digits))"

lemma broker_scheme_append:
  "broker_scheme (''mqtt://'' @ r) = Some (False, r)"
  "broker_scheme (''tcp://'' @ r) = Some (False, r)"
  "broker_scheme (''mqtts://'' @ r) = Some (True, r)"
  "broker_scheme (''ssl://'' @ r) = Some (True, r)"
  by (simp_all add: broker_scheme_def strip_prefix_str_def)

lemma strip_prefix_str_Some: "strip_prefix_str s p = Some r \<longleftrightarrow> s = p @ r"
  by (auto simp: strip_prefix_str_def prefix_def)

lemma broker_scheme_Some_iff:
  "broker_scheme url = Some (tls, rest) \<longleftrightarrow>
     (\<exists>scheme. url = scheme @ rest \<and>
        (scheme, tls) \<in> {(''mqtt://'', False), (''tcp://'', False), (''mqtts://'', True), (''ssl://'', True)})"
proof
  assume "broker_scheme url = Some (tls, rest)"
  then show "\<exists>scheme. url = scheme @ rest \<and>
      (scheme, tls) \<in> {(''mqtt://'', False), (''tcp://'', False), (''mqtts://'', True), (''ssl://'', True)}"
    unfolding broker_scheme_def by (auto simp: strip_prefix_str_Some split: option.splits)
qed (use broker_scheme_append [of rest] in blast)

lemma split_at_first_Some_iff: "split_at_first c s = Some (a, b) \<longleftrightarrow> s = a @ c # b \<and> c \<notin> set a"
proof
  show "split_at_first c s = Some (a, b) \<Longrightarrow> s = a @ c # b \<and> c \<notin> set a"
    by (induction s arbitrary: a) (auto split: if_splits)
qed auto

lemma split_at_last_Some_iff: "split_at_last c s = Some (a, b) \<longleftrightarrow> s = a @ c # b \<and> c \<notin> set b"
proof
  assume "split_at_last c s = Some (a, b)"
  then have "split_at_first c (rev s) = Some (rev b, rev a)" by (auto simp: split_at_last_def)
  then have "rev s = rev (a @ c # b) \<and> c \<notin> set b" by (simp add: split_at_first_Some_iff)
  then show "s = a @ c # b \<and> c \<notin> set b" by (metis rev_rev_ident)
qed auto

lemma parse_unsigned_bound: "parse_unsigned w s = Some n \<Longrightarrow> n < 2 ^ w"
  by (auto simp: parse_unsigned_def Let_def split: if_splits)

lemma parse_port:
  "map_option (\<lambda>p. word_of_nat p :: u16) (parse_unsigned 16 digits) = Some port \<longleftrightarrow>
     parse_unsigned 16 digits = Some (unat port)"
  using parse_unsigned_bound [of 16 digits] by (auto simp: unsigned_of_nat take_bit_nat_eq_self)

lemma case_option_eq_Some: "(case x of None \<Rightarrow> None | Some y \<Rightarrow> f y) = Some z \<longleftrightarrow> (\<exists>y. x = Some y \<and> f y = Some z)"
  by (cases x) simp_all

lemma bracketed_host_port:
  "split_host_port (''['' @ rest) = Some (host, port) \<longleftrightarrow>
     (\<exists>digits. rest = host @ '']:'' @ digits \<and> CHR '']'' \<notin> set host \<and> parse_unsigned 16 digits = Some (unat port))"
proof -
  have "split_host_port (''['' @ rest) = Some (host, port) \<longleftrightarrow>
      (\<exists>after. split_at_first CHR '']'' rest = Some (host, after) \<and>
         (\<exists>digits. strip_prefix_str after '':'' = Some digits \<and>
            map_option (\<lambda>p. word_of_nat p :: u16) (parse_unsigned 16 digits) = Some port))"
    by (force simp: split_host_port_def strip_prefix_str_def case_option_eq_Some)
  then show ?thesis unfolding parse_port split_at_first_Some_iff strip_prefix_str_Some by auto
qed

lemma plain_host_port:
  assumes "\<not> prefix ''['' address"
  shows "split_host_port address = Some (host, port) \<longleftrightarrow>
     (\<exists>digits. address = host @ '':'' @ digits \<and> CHR '':'' \<notin> set digits \<and> host \<noteq> [] \<and>
        parse_unsigned 16 digits = Some (unat port))"
proof -
  have "split_host_port address = Some (host, port) \<longleftrightarrow>
      (\<exists>digits. split_at_last CHR '':'' address = Some (host, digits) \<and> host \<noteq> [] \<and>
         map_option (\<lambda>p. word_of_nat p :: u16) (parse_unsigned 16 digits) = Some port)"
    using assms by (force simp: split_host_port_def strip_prefix_str_def case_option_eq_Some split: if_splits)
  then show ?thesis unfolding parse_port split_at_last_Some_iff by auto
qed

lemma split_host_port_Some_iff:
  "split_host_port address = Some (host, port) \<longleftrightarrow>
     (\<exists>digits. parse_unsigned 16 digits = Some (unat port) \<and>
        (address = ''['' @ host @ '']:'' @ digits \<and> CHR '']'' \<notin> set host \<or>
         address = host @ '':'' @ digits \<and> host \<noteq> [] \<and> hd host \<noteq> CHR ''['' \<and> CHR '':'' \<notin> set digits))"
proof (cases "prefix ''['' address")
  case True
  then obtain rest where address: "address = ''['' @ rest" by (auto simp: prefix_def)
  have "\<not> (''['' @ rest = host @ x \<and> host \<noteq> [] \<and> hd host \<noteq> CHR ''['')" for x by (cases host) auto
  then show ?thesis unfolding address bracketed_host_port by auto
next
  case False
  then have "hd host \<noteq> CHR ''[''" if "address = host @ x" "host \<noteq> []" for x
    using that by (cases host) auto
  moreover have "address \<noteq> ''['' @ x" for x using False by auto
  ultimately show ?thesis unfolding plain_host_port [OF False] by auto
qed

lemma parse_broker_url_Ok_iff:
  "parse_broker_url url = Ok \<lparr>be_host = host, be_port = port, be_tls = tls\<rparr> \<longleftrightarrow> broker_address url host port tls"
proof -
  have "parse_broker_url url = Ok \<lparr>be_host = host, be_port = port, be_tls = tls\<rparr> \<longleftrightarrow>
      (\<exists>address. broker_scheme url = Some (tls, address) \<and> address \<noteq> [] \<and>
         CHR ''/'' \<notin> set address \<and> CHR ''?'' \<notin> set address \<and> CHR ''#'' \<notin> set address \<and>
         split_host_port address = Some (host, port))"
    by (auto simp: parse_broker_url_def split: option.split)
  also have "\<dots> \<longleftrightarrow> broker_address url host port tls"
  proof
    assume "\<exists>address. broker_scheme url = Some (tls, address) \<and> address \<noteq> [] \<and>
      CHR ''/'' \<notin> set address \<and> CHR ''?'' \<notin> set address \<and> CHR ''#'' \<notin> set address \<and>
      split_host_port address = Some (host, port)"
    then obtain address where "broker_scheme url = Some (tls, address)" "split_host_port address = Some (host, port)"
      and chars: "CHR ''/'' \<notin> set address" "CHR ''?'' \<notin> set address" "CHR ''#'' \<notin> set address" by blast
    then show "broker_address url host port tls"
      unfolding broker_scheme_Some_iff split_host_port_Some_iff broker_address_def
      by (elim exE conjE) (intro exI conjI; assumption)
  next
    assume "broker_address url host port tls"
    then obtain scheme address digits where parts: "url = scheme @ address"
        "(scheme, tls) \<in> {(''mqtt://'', False), (''tcp://'', False), (''mqtts://'', True), (''ssl://'', True)}"
        "parse_unsigned 16 digits = Some (unat port)"
        "address = ''['' @ host @ '']:'' @ digits \<and> CHR '']'' \<notin> set host \<or>
         address = host @ '':'' @ digits \<and> host \<noteq> [] \<and> hd host \<noteq> CHR ''['' \<and> CHR '':'' \<notin> set digits"
      and chars: "CHR ''/'' \<notin> set address" "CHR ''?'' \<notin> set address" "CHR ''#'' \<notin> set address"
      unfolding broker_address_def by (elim exE conjE) (rule that; assumption)
    have "broker_scheme url = Some (tls, address)"
      unfolding broker_scheme_Some_iff by (intro exI conjI) (rule parts)+
    moreover have "split_host_port address = Some (host, port)"
      unfolding split_host_port_Some_iff by (intro exI conjI) (rule parts)+
    moreover note chars
    moreover have "address \<noteq> []" using parts(4) by auto
    ultimately show "\<exists>address. broker_scheme url = Some (tls, address) \<and> address \<noteq> [] \<and>
      CHR ''/'' \<notin> set address \<and> CHR ''?'' \<notin> set address \<and> CHR ''#'' \<notin> set address \<and>
      split_host_port address = Some (host, port)" by blast
  qed
  finally show ?thesis .
qed

lemma await_ack_Done_iff:
  assumes "\<And>e. acknowledges q e \<longleftrightarrow> e = awaited" "\<And>m. awaited \<noteq> Poll_Error m"
  shows "await_ack q es = Done rest \<longleftrightarrow>
     (\<exists>before. es = before @ awaited # rest \<and> awaited \<notin> set before \<and> (\<forall>m. Poll_Error m \<notin> set before))"
proof (induction es)
  case (Cons e es)
  show ?case
  proof (cases "e = awaited \<or> (\<exists>m. e = Poll_Error m)")
    case True
    then show ?thesis using assms by (auto simp: Cons_eq_append_conv)
  next
    case False
    then have "await_ack q (e # es) = await_ack q es" using assms(1) by (cases e) auto
    then show ?thesis using Cons False by (auto simp: Cons_eq_append_conv)
  qed
qed simp

lemma await_disconnect_Done_iff:
  "await_disconnect es = Done () \<longleftrightarrow> Out_Disconnect \<in> set es \<or> (\<exists>m. Poll_Error m \<in> set es)"
  by (induction es) (auto split: mqtt_event.splits)

lemma disconnect_Ok_iff:
  "(case mqc_disconnect client of
      Failed e \<Rightarrow> Ok ()
    | Hangs \<Rightarrow> Err t
    | Done _ \<Rightarrow> step_in_time (await_disconnect rest) Protocol t Ok) = Ok () \<longleftrightarrow>
   (\<exists>e. mqc_disconnect client = Failed e) \<or>
   mqc_disconnect client = Done () \<and> (Out_Disconnect \<in> set rest \<or> (\<exists>m. Poll_Error m \<in> set rest))"
  by (cases "mqc_disconnect client") (simp_all add: await_disconnect_Done_iff)

lemma mqtt_publish_steps:
  "fst (mqtt_publish client counter cfg body) = Ok () \<longleftrightarrow>
     (\<exists>host port tls q. broker_address (mt_broker_url cfg) host port tls \<and> qos_from_u8 (mt_qos cfg) = Ok q \<and>
        mqtt_exchange client cfg
          \<lparr>co_client_id = (case mt_client_id cfg of Some c \<Rightarrow> c | None \<Rightarrow> ''iron-babel-pub-'' @ show_nat (unat counter)),
           co_host = host, co_port = port, co_tls = tls, co_keep_alive_secs = Some 5\<rparr> q body = Ok ())"
proof -
  have endpoints: "(\<exists>e. P e) = (\<exists>host port tls. P \<lparr>be_host = host, be_port = port, be_tls = tls\<rparr>)" for P
    by (metis broker_endpoint.surjective old.unit.exhaust)
  have "fst (mqtt_publish client counter cfg body) = Ok () \<longleftrightarrow>
      (\<exists>endpoint q. parse_broker_url (mt_broker_url cfg) = Ok endpoint \<and> qos_from_u8 (mt_qos cfg) = Ok q \<and>
         mqtt_exchange client cfg
           \<lparr>co_client_id = (case mt_client_id cfg of Some c \<Rightarrow> c | None \<Rightarrow> ''iron-babel-pub-'' @ show_nat (unat counter)),
            co_host = be_host endpoint, co_port = be_port endpoint, co_tls = be_tls endpoint, co_keep_alive_secs = Some 5\<rparr>
           q body = Ok ())"
    by (auto simp: mqtt_publish_def next_client_id_def mqtt_options_def Let_def split: result.split option.split)
  then show ?thesis unfolding endpoints parse_broker_url_Ok_iff by simp
qed

lemma qos_from_u8_Ok_iff:
  "qos_from_u8 n = Ok q \<longleftrightarrow> (n, q) \<in> {(0, AtMostOnce), (1, AtLeastOnce), (2, ExactlyOnce)}"
  by (auto simp: qos_from_u8_def)

lemma mqtt_exchange_Ok_iff:
  assumes "\<And>e. acknowledges q e \<longleftrightarrow> e = awaited" "\<And>m. awaited \<noteq> Poll_Error m"
  shows "mqtt_exchange client cfg options q body = Ok () \<longleftrightarrow>
     mqc_publish client options (mt_topic cfg) q (mt_retain cfg) body = Done () \<and>
     (\<exists>before later. mqc_events client = before @ awaited # later \<and> awaited \<notin> set before \<and> (\<forall>m. Poll_Error m \<notin> set before) \<and>
       ((\<exists>e. mqc_disconnect client = Failed e) \<or>
        mqc_disconnect client = Done () \<and> (Out_Disconnect \<in> set later \<or> (\<exists>m. Poll_Error m \<in> set later))))"
  by (auto simp: mqtt_exchange_def disconnect_Ok_iff await_ack_Done_iff [OF assms])

lemma three_cases:
  "(\<exists>a b c q w x y. A a b c \<and> (n, q, w) \<in> {(n0, q0, w0), (n1, q1, w1), (n2, q2, w2)} \<and> P a b c q w x y) \<longleftrightarrow>
     n = n0 \<and> (\<exists>a b c x y. A a b c \<and> P a b c q0 w0 x y) \<or>
     n = n1 \<and> (\<exists>a b c x y. A a b c \<and> P a b c q1 w1 x y) \<or>
     n = n2 \<and> (\<exists>a b c x y. A a b c \<and> P a b c q2 w2 x y)"
  unfolding insert_iff empty_iff prod.inject by blast

text \<open>
  C33: when an MQTT publish reports success. The broker URL is a proper address and the quality of service 0, 1 or 2;
  the client took the packet for the host, port and encryption of that URL with the configured topic,
  retain flag and quality; and before any connection error the event arrived that gives the
  message to the broker at that quality of service: the packet on the wire at 0, PUBACK at 1,
  PUBCOMP at 2. After it the publish succeeds unless the timeout expires before the connection is shut down or lost.
\<close>

theorem mqtt_publish_Ok_iff:
  "fst (mqtt_publish client counter cfg body) = Ok () \<longleftrightarrow>
     (\<exists>host port tls q awaited before later.
        broker_address (mt_broker_url cfg) host port tls \<and>
        (mt_qos cfg, q, awaited) \<in> {(0, AtMostOnce, Out_Publish), (1, AtLeastOnce, In_PubAck), (2, ExactlyOnce, In_PubComp)} \<and>
        mqc_publish client
          \<lparr>co_client_id = (case mt_client_id cfg of Some c \<Rightarrow> c | None \<Rightarrow> ''iron-babel-pub-'' @ show_nat (unat counter)),
           co_host = host, co_port = port, co_tls = tls, co_keep_alive_secs = Some 5\<rparr>
          (mt_topic cfg) q (mt_retain cfg) body = Done () \<and>
        mqc_events client = before @ awaited # later \<and> awaited \<notin> set before \<and> (\<forall>m. Poll_Error m \<notin> set before) \<and>
        ((\<exists>e. mqc_disconnect client = Failed e) \<or>
         mqc_disconnect client = Done () \<and> (Out_Disconnect \<in> set later \<or> (\<exists>m. Poll_Error m \<in> set later))))"
proof -
  let ?sent = "\<lambda>options q awaited. mqc_publish client options (mt_topic cfg) q (mt_retain cfg) body = Done () \<and>
    (\<exists>before later. mqc_events client = before @ awaited # later \<and> awaited \<notin> set before \<and> (\<forall>m. Poll_Error m \<notin> set before) \<and>
      ((\<exists>e. mqc_disconnect client = Failed e) \<or>
       mqc_disconnect client = Done () \<and> (Out_Disconnect \<in> set later \<or> (\<exists>m. Poll_Error m \<in> set later))))"
  let ?on_qos = "\<lambda>q. \<exists>host port tls. broker_address (mt_broker_url cfg) host port tls \<and>
    mqtt_exchange client cfg
      \<lparr>co_client_id = (case mt_client_id cfg of Some c \<Rightarrow> c | None \<Rightarrow> ''iron-babel-pub-'' @ show_nat (unat counter)),
       co_host = host, co_port = port, co_tls = tls, co_keep_alive_secs = Some 5\<rparr> q body = Ok ()"
  have "fst (mqtt_publish client counter cfg body) = Ok () \<longleftrightarrow>
      mt_qos cfg = 0 \<and> ?on_qos AtMostOnce \<or> mt_qos cfg = 1 \<and> ?on_qos AtLeastOnce \<or> mt_qos cfg = 2 \<and> ?on_qos ExactlyOnce"
    unfolding mqtt_publish_steps qos_from_u8_Ok_iff by blast
  moreover have "mqtt_exchange client cfg options AtMostOnce body = Ok () \<longleftrightarrow> ?sent options AtMostOnce Out_Publish"
    "mqtt_exchange client cfg options AtLeastOnce body = Ok () \<longleftrightarrow> ?sent options AtLeastOnce In_PubAck"
    "mqtt_exchange client cfg options ExactlyOnce body = Ok () \<longleftrightarrow> ?sent options ExactlyOnce In_PubComp" for options
    by (rule mqtt_exchange_Ok_iff; simp)+
  ultimately show ?thesis unfolding three_cases by simp
qed

lemma amqp_await_Ok:
  "fst (amqp_await broker t f past op k) = Ok () \<longleftrightarrow> ab_answer broker past op = Done () \<and> fst (k (past @ [op])) = Ok ()"
  by (simp add: amqp_await_def split: outcome.split)

lemma amqp_await_prefix:
  assumes "prefix (snd (k (past @ [op]))) ops" "prefix (past @ [op]) ops"
  shows "prefix (snd (amqp_await broker t f past op k)) ops"
  using assms by (simp add: amqp_await_def split: outcome.split)

lemma amqp_confirmed_Ok:
  "fst (amqp_confirmed broker cfg past) = Ok () \<longleftrightarrow>
     (ab_confirmation broker past = Done (Confirm_Ack None) \<or> ab_confirmation broker past = Done Not_Requested) \<and>
     ab_answer broker (past @ [Op_Await_Confirm]) (Op_Close 200 ''publish complete'') = Done ()"
proof (cases "ab_confirmation broker past")
  case (Done c)
  show ?thesis
  proof (cases c)
    case (Confirm_Ack m)
    then show ?thesis using Done by (cases m) (simp_all add: amqp_confirmed_def amqp_await_Ok Let_def)
  qed (use Done in \<open>simp_all add: amqp_confirmed_def amqp_await_Ok Let_def\<close>)
qed (simp_all add: amqp_confirmed_def Let_def)

lemma amqp_confirmed_prefix:
  assumes "ops = past @ [Op_Await_Confirm, Op_Close 200 ''publish complete'']"
  shows "prefix (snd (amqp_confirmed broker cfg past)) ops"
  using assms by (simp add: amqp_confirmed_def amqp_await_def Let_def split: outcome.split option.split)

text \<open>
  C34: an AMQP publish. Whatever happens, the operations it carries out are an initial part of one session: connect to
  the configured broker, open a channel, put it into confirm mode, and only then publish the body to the
  configured exchange and routing key, with the mandatory flag, as a persistent message exactly when so
  configured, and with the configured content type; wait for the confirmation, close with code 200. It
  reports success exactly when every operation succeeded in time where it
  stands in that session, and the broker's confirmation is neither a rejection nor an acknowledgement that
  returns the message as undeliverable.
\<close>

theorem amqp_publish_Ok_iff:
  "let connect = Op_Connect (at_broker_url cfg);
       publish = Op_Basic_Publish (at_exchange cfg) (at_routing_key cfg) (at_mandatory cfg) body
         \<lparr>ap_delivery_mode = (if at_persistent cfg then Some 2 else None), ap_content_type = at_content_type cfg\<rparr>;
       close = Op_Close 200 ''publish complete''
   in prefix (snd (amqp_publish broker cfg body))
        [connect, Op_Create_Channel, Op_Confirm_Select, publish, Op_Await_Confirm, close] \<and>
      (fst (amqp_publish broker cfg body) = Ok () \<longleftrightarrow>
         ab_answer broker [] connect = Done () \<and>
         ab_answer broker [connect] Op_Create_Channel = Done () \<and>
         ab_answer broker [connect, Op_Create_Channel] Op_Confirm_Select = Done () \<and>
         ab_answer broker [connect, Op_Create_Channel, Op_Confirm_Select] publish = Done () \<and>
         ab_confirmation broker [connect, Op_Create_Channel, Op_Confirm_Select, publish]
           \<in> {Done (Confirm_Ack None), Done Not_Requested} \<and>
         ab_answer broker [connect, Op_Create_Channel, Op_Confirm_Select, publish, Op_Await_Confirm] close = Done ())"
  unfolding Let_def
proof (intro conjI)
  show "prefix (snd (amqp_publish broker cfg body))
    [Op_Connect (at_broker_url cfg), Op_Create_Channel, Op_Confirm_Select,
     Op_Basic_Publish (at_exchange cfg) (at_routing_key cfg) (at_mandatory cfg) body
       \<lparr>ap_delivery_mode = (if at_persistent cfg then Some 2 else None), ap_content_type = at_content_type cfg\<rparr>,
     Op_Await_Confirm, Op_Close 200 ''publish complete'']"
    unfolding amqp_publish_def Let_def amqp_properties_of_def
    by (intro amqp_await_prefix amqp_confirmed_prefix) simp_all
qed (simp add: amqp_publish_def Let_def amqp_await_Ok amqp_confirmed_Ok amqp_properties_of_def)

lemma amqp_accepted:
  "is_ok (fst (amqp_publish \<lparr>ab_answer = \<lambda>_ _. Done (), ab_confirmation = \<lambda>_. Done (Confirm_Ack None)\<rparr> cfg body))"
  by (simp add: amqp_publish_def amqp_await_def amqp_confirmed_def Let_def)

subsection \<open>Broker addresses\<close>

lemma split_host_port_show:
  assumes "host \<noteq> []" "hd host \<noteq> CHR ''[''"
  shows "split_host_port (host @ '':'' @ show_nat (unat (port :: u16))) = Some (host, port)"
proof -
  have "CHR '':'' \<notin> set (show_nat (unat port))"
    using digit_chars by (fastforce simp: is_ascii_digit_def byte_of_def)
  moreover have "strip_prefix_str (host @ '':'' @ show_nat (unat port)) ''['' = None"
    using assms by (cases host) (auto simp: strip_prefix_str_def)
  moreover have "unat port < 2 ^ 16" using unsigned_less [of port, where 'a = nat] by simp
  ultimately show ?thesis using assms(1) by (simp add: split_host_port_def)
qed

lemma split_host_port_v6:
  assumes "CHR '']'' \<notin> set host"
  shows "split_host_port (''['' @ host @ '']:'' @ show_nat (unat (port :: u16))) = Some (host, port)"
proof -
  have "unat port < 2 ^ 16" using unsigned_less [of port, where 'a = nat] by simp
  then show ?thesis using assms by (simp add: split_host_port_def strip_prefix_str_def)
qed

definition plain_host :: "string \<Rightarrow> bool" where
  "plain_host h \<longleftrightarrow> h \<noteq> [] \<and> hd h \<noteq> CHR ''['' \<and> CHR ''/'' \<notin> set h \<and> CHR ''?'' \<notin> set h \<and> CHR ''#'' \<notin> set h"

text \<open>
  A broker address written as scheme, host, colon and port is read back as that host and port,
  with TLS for the schemes mqtts and ssl only.
\<close>

lemma parse_broker_url_round_trip:
  assumes "plain_host host" "(scheme, tls) \<in> {(''mqtt://'', False), (''tcp://'', False),
      (''mqtts://'', True), (''ssl://'', True)}"
  shows "parse_broker_url (scheme @ host @ '':'' @ show_nat (unat port))
    = Ok \<lparr>be_host = host, be_port = port, be_tls = tls\<rparr>"
proof -
  let ?rest = "host @ '':'' @ show_nat (unat port)"
  have "broker_scheme (scheme @ ?rest) = Some (tls, ?rest)"
    using assms(2) broker_scheme_append [of ?rest] by blast
  moreover have "split_host_port ?rest = Some (host, port)"
    using assms(1) by (intro split_host_port_show) (auto simp: plain_host_def)
  moreover have "CHR ''/'' \<notin> set ?rest" "CHR ''?'' \<notin> set ?rest" "CHR ''#'' \<notin> set ?rest"
    using assms(1) digit_chars by (fastforce simp: plain_host_def is_ascii_digit_def byte_of_def)+
  ultimately show ?thesis using assms(1) unfolding parse_broker_url_def plain_host_def by (simp del: append_Cons)
qed

text \<open>
  A broker address without a port is always refused when a message is published, with a
  configuration error, although validation of the configuration accepts it: there is no default
  port.
\<close>

lemma parse_broker_url_needs_port:
  assumes "CHR '':'' \<notin> set rest" "scheme \<in> {''mqtt://'', ''tcp://'', ''mqtts://'', ''ssl://''}"
  shows "\<exists>e. parse_broker_url (scheme @ rest) = Err (Config_Error e)"
proof -
  obtain tls where "broker_scheme (scheme @ rest) = Some (tls, rest)"
    using assms(2) broker_scheme_append [of rest] by blast
  moreover have "split_host_port rest = None"
  proof (cases "strip_prefix_str rest ''[''")
    case None
    then show ?thesis using assms(1) by (simp add: split_host_port_def split_at_last_None)
  next
    case (Some r)
    have no: "CHR '':'' \<notin> set r"
      using Some assms(1) by (auto simp: strip_prefix_str_def dest: in_set_dropD split: if_splits)
    show ?thesis
    proof (cases "split_at_first CHR '']'' r")
      case None
      then show ?thesis using Some by (simp add: split_host_port_def)
    next
      case s: (Some ab)
      obtain a b where ab: "ab = (a, b)" by force
      have "strip_prefix_str b '':'' = None"
        using split_at_first_subset [of _ r a b] s no
        by (cases b) (auto simp: ab strip_prefix_str_def)
      then show ?thesis using Some s by (simp add: split_host_port_def ab)
    qed
  qed
  ultimately show ?thesis by (simp add: parse_broker_url_def)
qed

text \<open>ZeroMQ addresses: whatever the spelling, the socket gets a tcp address.\<close>

lemma to_tcp_addr_schemes:
  "to_tcp_addr (''zmq://'' @ r) = ''tcp://'' @ r" "to_tcp_addr (''tcp://'' @ r) = ''tcp://'' @ r"
  by (simp_all add: to_tcp_addr_def)

lemma to_tcp_addr_tcp: "\<exists>r. to_tcp_addr addr = ''tcp://'' @ r"
proof (cases "starts_with addr ''zmq://'' \<or> starts_with addr ''tcp://''")
  case True
  then show ?thesis using to_tcp_addr_schemes by (metis prefix_def)
next
  case False
  then show ?thesis by (simp add: to_tcp_addr_def)
qed

lemma to_tcp_addr_idem: "to_tcp_addr (to_tcp_addr addr) = to_tcp_addr addr"
  using to_tcp_addr_tcp [of addr] to_tcp_addr_schemes(2) by metis

text \<open>The topic of a published message is a frame of its own, whatever the body holds.\<close>

lemma pub_message_frames:
  "pub_message topic body = pub_message topic' body' \<longleftrightarrow>
     body = body' \<and> (case topic of Some t \<Rightarrow> t | None \<Rightarrow> []) = (case topic' of Some t \<Rightarrow> t | None \<Rightarrow> [])"
  by (auto simp: pub_message_def)

subsection \<open>What validation rules out\<close>

lemma qos_in_range: "q \<le> 2 \<Longrightarrow> is_ok (qos_from_u8 q)"
proof -
  assume "q \<le> 2"
  then have "unat q \<le> 2" by (simp add: word_le_nat_alt)
  then consider "unat q = 0" | "unat q = 1" | "unat q = 2" by linarith
  then have "q = 0 \<or> q = 1 \<or> q = 2" by cases (simp_all add: word_unat_eq_iff)
  then show ?thesis by (auto simp: qos_from_u8_def)
qed

end
