(* ===== verification/Request_Handling.thy ===== *)
theory Request_Handling
  imports Router Protocols Middleware Admin Http_Upstreams Brokers
begin

section \<open>Request handling (src/core/gateway.rs)\<close>

text \<open>
  The handlers behind the server: \<open>handle_request\<close> with its transport dispatch and the
  \<open>admin_middleware\<close>. A handler maps the application state and an incoming request to a reply, the
  new state and the list of calls made to backends. Everything that is another crate's is a field
  of \<open>externals\<close>: the reqwest clients, the broker clients, the JSON parser, the checks of the http
  crate on methods and headers. The clocks are arguments.
\<close>

subsection \<open>Requests, replies and state\<close>

text \<open>
  An incoming request as axum hands it over; a header value that is not visible text is \<^const>\<open>None\<close>,
  the body is the stream's data or its error, and \<open>in_upgrade\<close> is the switching reply if the request
  is a valid WebSocket upgrade.
\<close>

record http_reply =
  re_status :: u16
  re_headers :: "(string \<times> string option) list"
  re_body :: bytes

record incoming =
  in_method :: string
  in_path :: string
  in_query :: "string option"
  in_headers :: "(string \<times> string option) list"
  in_body :: "string + bytes"
  in_remote_ip :: string
  in_upgrade :: "http_reply option"

record externals =
  ex_http :: http_client
  ex_graphql :: http_client
  ex_grpc :: http_client
  ex_zmq :: zmq_socket
  ex_mqtt :: mqtt_client
  ex_amqp :: amqp_broker
  ex_json :: json_parser
  ex_method_ok :: "string \<Rightarrow> bool"
  ex_header_ok :: "string \<Rightarrow> string \<Rightarrow> bool"

text \<open>The clocks of one request: monotonic, wall clock, elapsed time when the outcome is recorded.\<close>

record moment =
  mo_now :: instant
  mo_timestamp_ms :: u64
  mo_latency_ms :: u64

record app_state =
  as_router :: router
  as_metrics :: metrics_store
  as_middleware :: chain
  as_config_store :: admin_config_store
  as_client_ids :: u64

datatype upstream_call =
    Http_Call http_request
  | Zmq_Call string bytes
  | Mqtt_Call mqtt_transport_config bytes
  | Amqp_Call amqp_transport_config bytes
  | Ws_Call string u64

type_synonym handled = "http_reply \<times> app_state \<times> upstream_call list"

record dispatch =
  d_method :: string
  d_path :: string
  d_route :: route_config

subsection \<open>Replies\<close>

definition status_reply :: "u16 \<Rightarrow> http_reply" where
  "status_reply status = \<lparr>re_status = status, re_headers = [], re_body = []\<rparr>"

text \<open>A status with a text becomes a plain text reply.\<close>

definition text_reply :: "u16 \<Rightarrow> string \<Rightarrow> http_reply" where
  "text_reply status msg =
     \<lparr>re_status = status, re_headers = [(''content-type'', Some ''text/plain; charset=utf-8'')],
      re_body = as_bytes msg\<rparr>"

definition valid_status :: "u16 \<Rightarrow> bool" where
  "valid_status status \<longleftrightarrow> 100 \<le> status \<and> status < 1000"

text \<open>\<open>Response::builder()\<close> with a status, headers and a body; an invalid part makes it a bare 500.\<close>

definition build_response :: "externals \<Rightarrow> u16 \<Rightarrow> headers \<Rightarrow> bytes \<Rightarrow> http_reply" where
  "build_response ex status hs body =
     (if valid_status status \<and> list_all (\<lambda>(n, v). ex_header_ok ex n v) hs
      then \<lparr>re_status = status, re_headers = map (\<lambda>(n, v). (n, Some v)) hs, re_body = body\<rparr>
      else status_reply 500)"

definition visible_headers :: "(string \<times> string option) list \<Rightarrow> headers" where
  "visible_headers hs = List.map_filter (\<lambda>(k, v). map_option (Pair k) v) hs"

definition finalize_response :: "externals \<Rightarrow> chain \<Rightarrow> http_reply \<Rightarrow> http_reply" where
  "finalize_response ex mw reply =
     (let core_response = \<lparr>rs_data = [],
            rs_metadata = \<lparr>rs_status_code = Some (re_status reply),
                           rs_headers = visible_headers (re_headers reply), rs_duration = None\<rparr>\<rparr>
      in case chain_handle_response mw core_response of
           Ok core \<Rightarrow>
             reply\<lparr>re_status := (case rs_status_code (rs_metadata core) of
                                   Some s \<Rightarrow> if valid_status s then s else 500
                                 | None \<Rightarrow> re_status reply),
                   re_headers := map (\<lambda>(n, v). (n, Some v))
                     (filter (\<lambda>(n, v). ex_header_ok ex n v) (rs_headers (rs_metadata core)))\<rparr>
         | Err e \<Rightarrow> status_reply 500)"

subsection \<open>Transport helpers\<close>

fun transport_target :: "transport_config \<Rightarrow> string" where
  "transport_target (Http cfg) = ht_url cfg"
| "transport_target (Zmq cfg) = zt_address cfg"
| "transport_target (GraphQL cfg) = gq_url cfg"
| "transport_target (Grpc cfg) = gr_url cfg"
| "transport_target (WebSocket cfg) = wt_url cfg"
| "transport_target (Mqtt cfg) = mt_broker_url cfg"
| "transport_target (Amqp cfg) = at_broker_url cfg"

fun transport_timeout :: "transport_config \<Rightarrow> u64" where
  "transport_timeout (Http cfg) = ht_timeout_secs cfg"
| "transport_timeout (Zmq cfg) = zt_timeout_secs cfg"
| "transport_timeout (GraphQL cfg) = gq_timeout_secs cfg"
| "transport_timeout (Grpc cfg) = gr_timeout_secs cfg"
| "transport_timeout (WebSocket cfg) = wt_timeout_secs cfg"
| "transport_timeout (Mqtt cfg) = mt_timeout_secs cfg"
| "transport_timeout (Amqp cfg) = at_timeout_secs cfg"

definition set_forwarded_for :: "headers \<Rightarrow> string \<Rightarrow> headers" where
  "set_forwarded_for hs remote_addr =
     (let hs1 = filter (\<lambda>(name, _). \<not> eq_ignore_ascii_case name ''x-forwarded-for'') hs
      in if remote_addr \<noteq> [] then hs1 @ [(''x-forwarded-for'', remote_addr)] else hs1)"

text \<open>\<open>Dispatch::record\<close>, and the same without a route for requests that match none.\<close>

definition record_outcome ::
  "moment \<Rightarrow> string \<Rightarrow> string \<Rightarrow> string option \<Rightarrow> string \<Rightarrow> u16 \<Rightarrow> string option \<Rightarrow> app_state \<Rightarrow> app_state" where
  "record_outcome mo req_method path matched target status err st =
     st\<lparr>as_metrics := record_request (mo_timestamp_ms mo)
          \<lparr>me_method = req_method, me_path = path, me_matched_route = matched,
           me_upstream_target = target, me_status_code = status, me_latency_ms = mo_latency_ms mo,
           me_error = err\<rparr> (as_metrics st)\<rparr>"

definition d_record ::
  "moment \<Rightarrow> dispatch \<Rightarrow> string \<Rightarrow> u16 \<Rightarrow> string option \<Rightarrow> app_state \<Rightarrow> app_state" where
  "d_record mo d target status err st =
     record_outcome mo (d_method d) (d_path d) (Some (rc_path (d_route d))) target status err st"

text \<open>Every exit of a handler: the state after recording, the calls made, the finalised reply.\<close>

definition finish :: "externals \<Rightarrow> app_state \<Rightarrow> upstream_call list \<Rightarrow> http_reply \<Rightarrow> handled" where
  "finish ex st calls reply = (finalize_response ex (as_middleware st) reply, st, calls)"

subsection \<open>Dispatch by transport\<close>

text \<open>The answer to a proxied HTTP exchange, shared by the HTTP, GraphQL and gRPC transports.\<close>

definition forward_path :: "http_transport_config \<Rightarrow> route_config \<Rightarrow> string \<Rightarrow> string" where
  "forward_path cfg r path =
     (if ht_strip_prefix cfg then
        let stripped = (case strip_prefix_str path (rc_path r) of Some s \<Rightarrow> s | None \<Rightarrow> path)
        in if stripped = [] then ''/''
           else if starts_with stripped ''/'' then stripped
           else ''/'' @ stripped
      else path)"

definition http_calls :: "http_request result \<Rightarrow> upstream_call list" where
  "http_calls assembled = (case assembled of Ok req \<Rightarrow> [Http_Call req] | Err e \<Rightarrow> [])"

definition dispatch_http ::
  "externals \<Rightarrow> moment \<Rightarrow> dispatch \<Rightarrow> http_transport_config \<Rightarrow> string option \<Rightarrow> headers \<Rightarrow> bytes
     \<Rightarrow> app_state \<Rightarrow> handled" where
  "dispatch_http ex mo d cfg query hs body st =
     (if \<not> ex_method_ok ex (d_method d)
      then finish ex (d_record mo d (ht_url cfg) 405 None st) [] (text_reply 405 ''Invalid method'')
      else
        let path = forward_path cfg (d_route d) (d_path d);
            calls = http_calls (http_assemble (d_method d) (ht_url cfg) path query hs body (ht_timeout_secs cfg))
        in case http_proxy (ex_http ex) (d_method d) (ht_url cfg) path query hs body (ht_timeout_secs cfg) of
             Ok (status, resp_headers, resp_body) \<Rightarrow>
               finish ex (d_record mo d (ht_url cfg) status None st) calls
                 (build_response ex status resp_headers resp_body)
           | Err e \<Rightarrow>
               finish ex (d_record mo d (ht_url cfg) 502 (Some (error_to_string e)) st) calls
                 (text_reply 502 ''Bad gateway''))"

definition zmq_failure ::
  "externals \<Rightarrow> moment \<Rightarrow> dispatch \<Rightarrow> zmq_transport_config \<Rightarrow> upstream_call list \<Rightarrow> error \<Rightarrow> app_state \<Rightarrow> handled" where
  "zmq_failure ex mo d cfg calls e st =
     finish ex (d_record mo d (zt_address cfg) 502 (Some (error_to_string e)) st) calls
       (text_reply 502 (''ZMQ error: '' @ error_to_string e))"

definition handle_zmq ::
  "externals \<Rightarrow> moment \<Rightarrow> dispatch \<Rightarrow> zmq_transport_config \<Rightarrow> bytes \<Rightarrow> app_state \<Rightarrow> handled" where
  "handle_zmq ex mo d cfg body st =
     (let calls = [Zmq_Call (to_tcp_addr (zt_address cfg)) body] in
      case zt_pattern cfg of
        ReqRep \<Rightarrow>
          (case forward_req_rep (ex_zmq ex) (zt_address cfg) body (zt_timeout_secs cfg) of
             Ok resp_body \<Rightarrow>
               finish ex (d_record mo d (zt_address cfg) 200 None st) calls
                 (build_response ex 200 [(''content-type'', ''application/octet-stream'')] resp_body)
           | Err e \<Rightarrow> zmq_failure ex mo d cfg calls e st)
      | Push \<Rightarrow>
          (case forward_push (ex_zmq ex) (zt_address cfg) body of
             Ok _ \<Rightarrow> finish ex (d_record mo d (zt_address cfg) 202 None st) calls (status_reply 202)
           | Err e \<Rightarrow> zmq_failure ex mo d cfg calls e st)
      | PubSub \<Rightarrow>
          (case forward_pub (ex_zmq ex) (zt_address cfg) body (zt_topic cfg) of
             Ok _ \<Rightarrow> finish ex (d_record mo d (zt_address cfg) 202 None st) calls (status_reply 202)
           | Err e \<Rightarrow> zmq_failure ex mo d cfg calls e st))"

definition handle_graphql ::
  "externals \<Rightarrow> moment \<Rightarrow> dispatch \<Rightarrow> graphql_transport_config \<Rightarrow> headers \<Rightarrow> bytes \<Rightarrow> app_state \<Rightarrow> handled" where
  "handle_graphql ex mo d cfg hs body st =
     (case graphql_encode (ex_json ex) body of
        Err e \<Rightarrow>
          finish ex (d_record mo d (gq_url cfg) 400 (Some (error_to_string e)) st) []
            (text_reply 400 (''GraphQL error: '' @ error_to_string e))
      | Ok body \<Rightarrow>
          let calls = http_calls (graphql_assemble (gq_url cfg) hs body (gq_timeout_secs cfg))
          in case graphql_proxy (ex_graphql ex) (gq_url cfg) hs body (gq_timeout_secs cfg) of
               Ok (status, resp_headers, resp_body) \<Rightarrow>
                 finish ex (d_record mo d (gq_url cfg) status None st) calls
                   (build_response ex status resp_headers resp_body)
             | Err e \<Rightarrow>
                 finish ex (d_record mo d (gq_url cfg) 502 (Some (error_to_string e)) st) calls
                   (text_reply 502 ''Bad gateway''))"

definition mqtt_calls :: "mqtt_transport_config \<Rightarrow> bytes \<Rightarrow> upstream_call list" where
  "mqtt_calls cfg body =
     (if is_ok (parse_broker_url (mt_broker_url cfg)) \<and> is_ok (qos_from_u8 (mt_qos cfg))
      then [Mqtt_Call cfg body] else [])"

definition handle_mqtt ::
  "externals \<Rightarrow> moment \<Rightarrow> dispatch \<Rightarrow> mqtt_transport_config \<Rightarrow> bytes \<Rightarrow> app_state \<Rightarrow> handled" where
  "handle_mqtt ex mo d cfg body st =
     (case mqtt_publish (ex_mqtt ex) (as_client_ids st) cfg body of
        (res, ids) \<Rightarrow>
          let st = st\<lparr>as_client_ids := ids\<rparr>; calls = mqtt_calls cfg body
          in case res of
               Ok _ \<Rightarrow> finish ex (d_record mo d (mt_broker_url cfg) 202 None st) calls (status_reply 202)
             | Err e \<Rightarrow>
                 finish ex (d_record mo d (mt_broker_url cfg) 502 (Some (error_to_string e)) st) calls
                   (text_reply 502 (''MQTT error: '' @ error_to_string e)))"

definition handle_amqp ::
  "externals \<Rightarrow> moment \<Rightarrow> dispatch \<Rightarrow> amqp_transport_config \<Rightarrow> bytes \<Rightarrow> app_state \<Rightarrow> handled" where
  "handle_amqp ex mo d cfg body st =
     (let calls = [Amqp_Call cfg body] in
      case fst (amqp_publish (ex_amqp ex) cfg body) of
        Ok _ \<Rightarrow> finish ex (d_record mo d (at_broker_url cfg) 202 None st) calls (status_reply 202)
      | Err e \<Rightarrow>
          finish ex (d_record mo d (at_broker_url cfg) 502 (Some (error_to_string e)) st) calls
            (text_reply 502 (''AMQP error: '' @ error_to_string e)))"

definition handle_grpc ::
  "externals \<Rightarrow> moment \<Rightarrow> dispatch \<Rightarrow> grpc_transport_config \<Rightarrow> headers \<Rightarrow> bytes \<Rightarrow> app_state \<Rightarrow> handled" where
  "handle_grpc ex mo d cfg hs body st =
     (case grpc_encode body of
        Err e \<Rightarrow>
          finish ex (d_record mo d (gr_url cfg) 400 (Some (error_to_string e)) st) []
            (text_reply 400 (''gRPC error: '' @ error_to_string e))
      | Ok framed_body \<Rightarrow>
          let calls = http_calls (grpc_assemble (gr_url cfg) (d_path d) hs framed_body (gr_timeout_secs cfg))
          in case grpc_proxy (ex_grpc ex) (gr_url cfg) (d_path d) hs framed_body (gr_timeout_secs cfg) of
               Ok (status, resp_headers, resp_body) \<Rightarrow>
                 (case (if 200 \<le> status \<and> status < 300 then grpc_decode resp_body else Ok resp_body) of
                    Err e \<Rightarrow>
                      finish ex (d_record mo d (gr_url cfg) 502 (Some (error_to_string e)) st) calls
                        (text_reply 502 ''Bad gateway: malformed gRPC response'')
                  | Ok decoded_body \<Rightarrow>
                      finish ex (d_record mo d (gr_url cfg) status None st) calls
                        (build_response ex status resp_headers decoded_body))
             | Err e \<Rightarrow>
                 finish ex (d_record mo d (gr_url cfg) 502 (Some (error_to_string e)) st) calls
                   (text_reply 502 ''Bad gateway''))"

text \<open>
  The final match. Its WebSocket arm is \<open>unreachable!()\<close>: a panic, here the absence of a result.
\<close>

fun dispatch_transport ::
  "externals \<Rightarrow> moment \<Rightarrow> dispatch \<Rightarrow> transport_config \<Rightarrow> string option \<Rightarrow> headers \<Rightarrow> bytes
     \<Rightarrow> app_state \<Rightarrow> handled option" where
  "dispatch_transport ex mo d (Http cfg) query hs body st = Some (dispatch_http ex mo d cfg query hs body st)"
| "dispatch_transport ex mo d (Zmq cfg) query hs body st = Some (handle_zmq ex mo d cfg body st)"
| "dispatch_transport ex mo d (GraphQL cfg) query hs body st = Some (handle_graphql ex mo d cfg hs body st)"
| "dispatch_transport ex mo d (Grpc cfg) query hs body st = Some (handle_grpc ex mo d cfg hs body st)"
| "dispatch_transport ex mo d (Mqtt cfg) query hs body st = Some (handle_mqtt ex mo d cfg body st)"
| "dispatch_transport ex mo d (Amqp cfg) query hs body st = Some (handle_amqp ex mo d cfg body st)"
| "dispatch_transport ex mo d (WebSocket cfg) query hs body st = None"

subsection \<open>handle\_request\<close>

definition MAX_REQUEST_BODY :: nat where
  "MAX_REQUEST_BODY = 10 * 1024 * 1024"

text \<open>\<open>axum::body::to_bytes\<close> with a limit.\<close>

definition to_bytes :: "string + bytes \<Rightarrow> nat \<Rightarrow> bytes option" where
  "to_bytes stream limit =
     (case stream of Inl e \<Rightarrow> None | Inr data \<Rightarrow> if length data \<le> limit then Some data else None)"

definition core_request :: "incoming \<Rightarrow> transport_config \<Rightarrow> bytes \<Rightarrow> request" where
  "core_request req transport body =
     \<lparr>rq_data = body,
      rq_metadata = \<lparr>rm_protocol = ''http'', rm_method = Some (in_method req),
        rm_path = Some (in_path req), rm_headers = visible_headers (in_headers req),
        rm_timeout = Some (unat (transport_timeout transport) * NANOS_PER_SEC),
        rm_remote_addr = Some (in_remote_ip req)\<rparr>\<rparr>"

definition handle_ws_route ::
  "externals \<Rightarrow> moment \<Rightarrow> dispatch \<Rightarrow> websocket_transport_config \<Rightarrow> incoming \<Rightarrow> app_state \<Rightarrow> handled" where
  "handle_ws_route ex mo d cfg req st =
     (case in_upgrade req of
        Some switching \<Rightarrow>
          finish ex (d_record mo d (wt_url cfg) 101 None st) [Ws_Call (wt_url cfg) (wt_timeout_secs cfg)]
            switching
      | None \<Rightarrow>
          finish ex (d_record mo d (wt_url cfg) 426 None st) []
            (text_reply 426 ''WebSocket upgrade required''))"

text \<open>The answer to a request that the middleware chain refused.\<close>

definition refuse :: "externals \<Rightarrow> moment \<Rightarrow> dispatch \<Rightarrow> error \<Rightarrow> app_state \<Rightarrow> handled" where
  "refuse ex mo d e st =
     (let target = transport_target (rc_transport (d_route d)) in
      case e of
        Unauthorized msg \<Rightarrow> finish ex (d_record mo d target 401 None st) [] (text_reply 401 msg)
      | RateLimited \<Rightarrow>
          let retry_after = show_nat (unat (case rate_limit_window_secs (as_middleware st) of
                                              Some n \<Rightarrow> n | None \<Rightarrow> 60));
              reply = text_reply 429 ''Too many requests''
          in finish ex (d_record mo d target 429 None st) []
               (reply\<lparr>re_headers := re_headers reply @ [(''retry-after'', Some retry_after)]\<rparr>)
      | _ \<Rightarrow> finish ex (d_record mo d target 500 (Some (error_to_string e)) st) [] (status_reply 500))"

text \<open>From the body to the dispatch: the part every transport but WebSocket goes through.\<close>

definition admit_and_dispatch ::
  "externals \<Rightarrow> moment \<Rightarrow> dispatch \<Rightarrow> incoming \<Rightarrow> app_state \<Rightarrow> handled option" where
  "admit_and_dispatch ex mo d req st =
     (let transport = rc_transport (d_route d) in
      case to_bytes (in_body req) MAX_REQUEST_BODY of
        None \<Rightarrow>
          Some (finish ex (d_record mo d (transport_target transport) 413 None st) []
            (text_reply 413 ''Body too large''))
      | Some body \<Rightarrow>
          (case chain_handle_request (mo_now mo) (as_middleware st) (core_request req transport body) of
             (res, mw) \<Rightarrow>
               let st = st\<lparr>as_middleware := mw\<rparr>
               in case res of
                    Err e \<Rightarrow> Some (refuse ex mo d e st)
                  | Ok core_req \<Rightarrow>
                      let remote_ip = (case rm_remote_addr (rq_metadata core_req) of Some a \<Rightarrow> a | None \<Rightarrow> []);
                          hs = set_forwarded_for (rm_headers (rq_metadata core_req)) remote_ip
                      in dispatch_transport ex mo d transport (in_query req) hs (rq_data core_req) st))"

definition handle_request :: "externals \<Rightarrow> moment \<Rightarrow> incoming \<Rightarrow> app_state \<Rightarrow> handled option" where
  "handle_request ex mo req st =
     (if path_contains_traversal (in_path req)
      then Some (finish ex (record_outcome mo (in_method req) (in_path req) None [] 400 None st) []
             (text_reply 400 ''Invalid path''))
      else case route (as_router st) (in_method req) (in_path req) of
             None \<Rightarrow>
               Some (finish ex (record_outcome mo (in_method req) (in_path req) None [] 404 None st) []
                 (text_reply 404 ''Not found''))
           | Some r \<Rightarrow>
               let d = \<lparr>d_method = in_method req, d_path = in_path req, d_route = r\<rparr>
               in case rc_transport r of
                    WebSocket cfg \<Rightarrow> Some (handle_ws_route ex mo d cfg req st)
                  | _ \<Rightarrow> admit_and_dispatch ex mo d req st)"

subsection \<open>admin\_middleware\<close>

definition admin_core_request :: "incoming \<Rightarrow> request" where
  "admin_core_request req =
     \<lparr>rq_data = [],
      rq_metadata = \<lparr>rm_protocol = ''http'', rm_method = None, rm_path = None,
        rm_headers = visible_headers (in_headers req), rm_timeout = None,
        rm_remote_addr = Some (in_remote_ip req)\<rparr>\<rparr>"

text \<open>\<open>inner\<close> is \<open>next.run\<close>: the admin router's answer to the request, with the state it leaves.\<close>

definition admin_middleware ::
  "externals \<Rightarrow> instant \<Rightarrow> (app_state \<Rightarrow> http_reply \<times> app_state) \<Rightarrow> incoming \<Rightarrow> app_state
     \<Rightarrow> http_reply \<times> app_state" where
  "admin_middleware ex now inner req st =
     (case chain_handle_request now (as_middleware st) (admin_core_request req) of
           (res, mw) \<Rightarrow>
             let st = st\<lparr>as_middleware := mw\<rparr>
             in case res of
                  Ok _ \<Rightarrow> (case inner st of (reply, st') \<Rightarrow> (finalize_response ex (as_middleware st') reply, st'))
                | Err (Unauthorized msg) \<Rightarrow> (finalize_response ex mw (text_reply 401 msg), st)
                | Err RateLimited \<Rightarrow> (finalize_response ex mw (text_reply 429 ''Too many requests''), st)
                | Err e \<Rightarrow> (finalize_response ex mw (status_reply 500), st))"

subsection \<open>Every request is logged once, with the status it was answered with\<close>

text \<open>
  What the http crate and reqwest guarantee: a response has a status the http crate accepts, and a
  header that reads as text may be sent on; the gateway's own headers are well formed.
\<close>

definition sane_client :: "externals \<Rightarrow> http_client \<Rightarrow> bool" where
  "sane_client ex send \<longleftrightarrow> (\<forall>rq resp. send rq = Inr resp \<longrightarrow> valid_status (hp_status resp) \<and>
     (\<forall>n v. (n, Some v) \<in> set (hp_headers resp) \<longrightarrow> ex_header_ok ex n v))"

definition sane :: "externals \<Rightarrow> bool" where
  "sane ex \<longleftrightarrow> sane_client ex (ex_http ex) \<and> sane_client ex (ex_graphql ex) \<and> sane_client ex (ex_grpc ex) \<and>
     ex_header_ok ex ''content-type'' ''application/octet-stream''"

definition logged ::
  "moment \<Rightarrow> string \<Rightarrow> string \<Rightarrow> string option \<Rightarrow> metrics_store \<Rightarrow> handled \<Rightarrow> bool" where
  "logged mo req_method path matched metrics h \<longleftrightarrow>
     (case h of (reply, st', calls) \<Rightarrow> \<exists>target err.
        as_metrics st' = record_request (mo_timestamp_ms mo)
          \<lparr>me_method = req_method, me_path = path, me_matched_route = matched,
           me_upstream_target = target, me_status_code = re_status reply,
           me_latency_ms = mo_latency_ms mo, me_error = err\<rparr> metrics)"

lemma finalize_response_eq:
  "finalize_response ex mw reply =
     reply\<lparr>re_status := (if valid_status (re_status reply) then re_status reply else 500),
           re_headers := map (\<lambda>(n, v). (n, Some v))
             (filter (\<lambda>(n, v). ex_header_ok ex n v) (visible_headers (re_headers reply)))\<rparr>"
  by (simp add: finalize_response_def Let_def)

lemma valid_status_codes [simp]:
  "valid_status 101" "valid_status 200" "valid_status 202" "valid_status 400" "valid_status 401"
  "valid_status 404" "valid_status 405" "valid_status 413" "valid_status 426" "valid_status 429"
  "valid_status 500" "valid_status 502"
  by (simp_all add: valid_status_def)

lemma reply_status [simp]:
  "re_status (text_reply status msg) = status" "re_status (status_reply status) = status"
  by (simp_all add: text_reply_def status_reply_def)

lemma logged_finish [intro]:
  assumes "valid_status (re_status reply)"
    and "as_metrics st' = as_metrics (record_outcome mo req_method path matched target (re_status reply) err st)"
    and "metrics = as_metrics st"
  shows "logged mo req_method path matched metrics (finish ex st' calls reply)"
  using assms by (auto simp: logged_def finish_def finalize_response_eq record_outcome_def)

lemma logged_d_record:
  assumes "valid_status (re_status reply)" "status = re_status reply" "metrics = as_metrics st"
  shows "logged mo (d_method d) (d_path d) (Some (rc_path (d_route d))) metrics
    (finish ex (d_record mo d target status err st) calls reply)"
  using assms by (auto simp: d_record_def)

definition fits :: "externals \<Rightarrow> u16 \<Rightarrow> headers \<Rightarrow> bool" where
  "fits ex status hs \<longleftrightarrow> valid_status status \<and> list_all (\<lambda>(n, v). ex_header_ok ex n v) hs"

lemma build_response_fits: "fits ex status hs \<Longrightarrow> re_status (build_response ex status hs body) = status"
  by (simp add: build_response_def fits_def)

lemma logged_built:
  "fits ex status hs \<Longrightarrow>
     logged mo (d_method d) (d_path d) (Some (rc_path (d_route d))) (as_metrics st)
       (finish ex (d_record mo d target status err st) calls (build_response ex status hs body))"
  by (intro logged_d_record) (simp_all add: build_response_fits, simp add: fits_def)

lemma exchange_fits:
  assumes "sane_client ex send" "exchange mk send rq = Ok (status, hs, body)"
  shows "fits ex status hs"
proof -
  obtain resp where resp: "send rq = Inr resp" "hp_status resp = status" "hs = response_headers resp"
    using assms(2) by (auto simp: exchange_def split: sum.splits)
  then show ?thesis using assms(1)
    by (auto simp: fits_def response_headers_def strip_hop_by_hop_headers_def sane_client_def list_all_iff
        List.map_filter_def split: option.splits)
qed

lemma proxy_fits:
  "sane ex \<Longrightarrow> http_proxy (ex_http ex) m b p q hs body t = Ok (status, rh, rb) \<Longrightarrow> fits ex status rh"
  "sane ex \<Longrightarrow> graphql_proxy (ex_graphql ex) u hs body t = Ok (status, rh, rb) \<Longrightarrow> fits ex status rh"
  "sane ex \<Longrightarrow> grpc_proxy (ex_grpc ex) b p hs body t = Ok (status, rh, rb) \<Longrightarrow> fits ex status rh"
  using exchange_fits by (auto simp: http_proxy_def graphql_proxy_def grpc_proxy_def sane_def)

lemma dispatch_transport_logged:
  assumes "sane ex" "dispatch_transport ex mo d t query hs body st = Some h"
  shows "logged mo (d_method d) (d_path d) (Some (rc_path (d_route d))) (as_metrics st) h"
proof (cases t)
  case (Http cfg)
  then show ?thesis using assms
    by (auto simp: dispatch_http_def Let_def split: result.splits if_splits
        intro!: logged_built logged_d_record dest: proxy_fits(1) [rotated])
next
  case (Zmq cfg)
  have "fits ex 200 [(''content-type'', ''application/octet-stream'')]"
    using assms(1) by (simp add: fits_def sane_def)
  then show ?thesis using assms(2) Zmq
    by (auto simp: handle_zmq_def zmq_failure_def Let_def
        split: result.splits zmq_pattern.splits intro!: logged_built logged_d_record)
next
  case (GraphQL cfg)
  then show ?thesis using assms
    by (auto simp: handle_graphql_def Let_def split: result.splits
        intro!: logged_built logged_d_record dest: proxy_fits(2) [rotated])
next
  case (Grpc cfg)
  then show ?thesis using assms
    by (auto simp: handle_grpc_def Let_def split: result.splits
        intro!: logged_built logged_d_record dest: proxy_fits(3) [rotated])
next
  case (Mqtt cfg)
  then show ?thesis using assms
    by (auto simp: handle_mqtt_def Let_def split: result.splits prod.splits intro!: logged_d_record)
next
  case (Amqp cfg)
  then show ?thesis using assms
    by (auto simp: handle_amqp_def Let_def split: result.splits intro!: logged_d_record)
qed (use assms in simp)

fun is_websocket :: "transport_config \<Rightarrow> bool" where
  "is_websocket (WebSocket cfg) = True"
| "is_websocket t = False"

lemma is_websocket_iff: "is_websocket t \<longleftrightarrow> (\<exists>cfg. t = WebSocket cfg)"
  by (cases t) simp_all

lemma refuse_logged:
  "logged mo (d_method d) (d_path d) (Some (rc_path (d_route d))) (as_metrics st) (refuse ex mo d e st)"
  by (cases e) (auto simp: refuse_def Let_def intro!: logged_d_record)

lemma dispatch_transport_Some:
  assumes "\<not> is_websocket t"
  shows "dispatch_transport ex mo d t query hs body st \<noteq> None"
  using assms by (cases t) auto

lemma admit_logged:
  assumes "sane ex" "\<not> is_websocket (rc_transport (d_route d))"
  shows "\<exists>h. admit_and_dispatch ex mo d req st = Some h \<and>
    logged mo (d_method d) (d_path d) (Some (rc_path (d_route d))) (as_metrics st) h"
proof (cases "to_bytes (in_body req) MAX_REQUEST_BODY")
  case None
  then show ?thesis by (auto simp: admit_and_dispatch_def Let_def intro!: logged_d_record)
next
  case (Some body)
  let ?t = "rc_transport (d_route d)"
  obtain res mw where chain:
    "chain_handle_request (mo_now mo) (as_middleware st) (core_request req ?t body) = (res, mw)" by force
  show ?thesis
  proof (cases res)
    case (Err e)
    then show ?thesis using Some chain refuse_logged [of mo d "st\<lparr>as_middleware := mw\<rparr>" ex e]
      by (simp add: admit_and_dispatch_def Let_def)
  next
    case (Ok core_req)
    let ?hs = "set_forwarded_for (rm_headers (rq_metadata core_req))
      (case rm_remote_addr (rq_metadata core_req) of Some a \<Rightarrow> a | None \<Rightarrow> [])"
    obtain h where h: "dispatch_transport ex mo d ?t (in_query req) ?hs (rq_data core_req)
        (st\<lparr>as_middleware := mw\<rparr>) = Some h"
      using dispatch_transport_Some [OF assms(2)] by (metis option.exhaust)
    show ?thesis
      using Some chain Ok h dispatch_transport_logged [OF assms(1) h]
      by (simp add: admit_and_dispatch_def Let_def)
  qed
qed

lemma handle_request_cases:
  assumes "\<not> path_contains_traversal (in_path req)"
    and "route (as_router st) (in_method req) (in_path req) = Some r"
    and "\<not> is_websocket (rc_transport r)"
  shows "handle_request ex mo req st =
    admit_and_dispatch ex mo \<lparr>d_method = in_method req, d_path = in_path req, d_route = r\<rparr> req st"
  using assms by (cases "rc_transport r") (simp_all add: handle_request_def Let_def)

lemma handle_request_websocket:
  assumes "\<not> path_contains_traversal (in_path req)"
    and "route (as_router st) (in_method req) (in_path req) = Some r"
    and "rc_transport r = WebSocket cfg"
  shows "handle_request ex mo req st =
    Some (handle_ws_route ex mo \<lparr>d_method = in_method req, d_path = in_path req, d_route = r\<rparr> cfg req st)"
  using assms by (simp add: handle_request_def Let_def)

lemma handle_ws_route_logged:
  assumes "\<And>r. in_upgrade req = Some r \<Longrightarrow> re_status r = 101"
  shows "logged mo (d_method d) (d_path d) (Some (rc_path (d_route d))) (as_metrics st)
    (handle_ws_route ex mo d cfg req st)"
  using assms by (cases "in_upgrade req") (auto simp: handle_ws_route_def intro!: logged_d_record)

lemma handle_request_answers:
  assumes "sane ex" "\<And>r. in_upgrade req = Some r \<Longrightarrow> re_status r = 101"
  shows "\<exists>h. handle_request ex mo req st = Some h \<and>
    logged mo (in_method req) (in_path req)
      (if path_contains_traversal (in_path req) then None
       else map_option rc_path (route (as_router st) (in_method req) (in_path req))) (as_metrics st) h"
proof (cases "path_contains_traversal (in_path req)")
  case True
  then show ?thesis by (auto simp: handle_request_def)
next
  case safe: False
  show ?thesis
  proof (cases "route (as_router st) (in_method req) (in_path req)")
    case None
    then show ?thesis using safe by (auto simp: handle_request_def)
  next
    case (Some r)
    let ?d = "\<lparr>d_method = in_method req, d_path = in_path req, d_route = r\<rparr>"
    show ?thesis
    proof (cases "is_websocket (rc_transport r)")
      case True
      then obtain cfg where ws: "rc_transport r = WebSocket cfg" by (auto simp: is_websocket_iff)
      show ?thesis using handle_request_websocket [OF safe Some ws] safe Some
          handle_ws_route_logged [OF assms(2), where d = ?d] by simp
    next
      case False
      then show ?thesis
        using admit_logged [OF assms(1), of ?d mo req st] handle_request_cases [OF safe Some] safe Some
        by simp
    qed
  qed
qed

text \<open>
  C6: the handler always answers, it never reaches its \<open>unreachable!()\<close>, and it records exactly one
  measurement for each request: with the request's method and path, the path of the matched route if
  there is one, and the very status the client is answered with, on every path through the handler.
\<close>

theorem handle_request_logged:
  assumes "sane ex" "\<And>r. in_upgrade req = Some r \<Longrightarrow> re_status r = 101"
  shows "\<exists>h. handle_request ex mo req st = Some h \<and>
    logged mo (in_method req) (in_path req)
      (if path_contains_traversal (in_path req) then None
       else map_option rc_path (route (as_router st) (in_method req) (in_path req))) (as_metrics st) h"
  using handle_request_answers [OF assms] .

text \<open>Backends that refuse every connection, and a gateway that has just been created.\<close>

definition refusing :: externals where
  "refusing = \<lparr>ex_http = \<lambda>_. Inl ''refused'', ex_graphql = \<lambda>_. Inl ''refused'', ex_grpc = \<lambda>_. Inl ''refused'',
     ex_zmq = \<lparr>zs_connect = \<lambda>_. Inl ''refused'', zs_send = \<lambda>_. Inl ''refused'', zs_recv = Hangs\<rparr>,
     ex_mqtt = \<lparr>mqc_publish = \<lambda>_ _ _ _ _. Failed ''refused'', mqc_events = [], mqc_disconnect = Hangs\<rparr>,
     ex_amqp = \<lparr>ab_answer = \<lambda>_ _. Failed ''refused'', ab_confirmation = \<lambda>_. Hangs\<rparr>,
     ex_json = \<lambda>_. Inl ''not JSON'', ex_method_ok = \<lambda>_. True, ex_header_ok = \<lambda>_ _. True\<rparr>"

lemma sane_refusing: "sane refusing"
  by (simp add: sane_def sane_client_def refusing_def)

definition fresh_state :: "gateway_config \<Rightarrow> app_state" where
  "fresh_state config =
     \<lparr>as_router = router_new (gc_routes config), as_metrics = metrics_new 0,
      as_middleware = build_middleware_chain (gc_middleware config),
      as_config_store = acs_new config, as_client_ids = 1\<rparr>"

definition get_request :: "string \<Rightarrow> incoming" where
  "get_request path =
     \<lparr>in_method = ''GET'', in_path = path, in_query = None, in_headers = [(''x-forwarded-for'', Some ''6.6.6.6'')],
      in_body = Inr [], in_remote_ip = ''10.0.0.1'', in_upgrade = None\<rparr>"

definition noon :: moment where
  "noon = \<lparr>mo_now = 0, mo_timestamp_ms = 43200000, mo_latency_ms = 3\<rparr>"

theorem handle_request_logged_witness:
  "\<exists>h. handle_request refusing noon (get_request ''/x'') (fresh_state minimal_config) = Some h \<and>
    logged noon (in_method (get_request ''/x'')) (in_path (get_request ''/x''))
      (if path_contains_traversal (in_path (get_request ''/x'')) then None
       else map_option rc_path (route (as_router (fresh_state minimal_config))
         (in_method (get_request ''/x'')) (in_path (get_request ''/x''))))
      (as_metrics (fresh_state minimal_config)) h"
  by (rule handle_request_logged [OF sane_refusing]) (simp add: get_request_def)

subsection \<open>Only the chain changes the chain\<close>

lemma recorded_chain [simp]:
  "as_middleware (d_record mo d target status err st) = as_middleware st"
  "as_middleware (record_outcome mo m p matched target status err st) = as_middleware st"
  by (simp_all add: d_record_def record_outcome_def)

text \<open>What a handler does to the shared state once the chain has run: it records one outcome.\<close>

definition records :: "app_state \<Rightarrow> app_state \<Rightarrow> bool" where
  "records st st' \<longleftrightarrow> as_router st' = as_router st \<and> as_middleware st' = as_middleware st \<and>
     as_config_store st' = as_config_store st \<and> (\<exists>t m. as_metrics st' = record_request t m (as_metrics st))"

lemma records_outcome [simp]:
  "records st (record_outcome mo meth path matched target status err st)"
  "records st (d_record mo d target status err st)"
  "records st (d_record mo d target status err (st\<lparr>as_client_ids := ids\<rparr>))"
  by (auto simp: records_def d_record_def record_outcome_def)

lemma dispatch_records:
  assumes "dispatch_transport ex mo d t query hs body st = Some (reply, st', calls)"
  shows "records st st'"
proof -
  have "records st (fst (snd h))" if "dispatch_transport ex mo d t query hs body st = Some h" for h
  proof (cases t)
    case (Zmq cfg)
    then show ?thesis using that
      by (cases "zt_pattern cfg") (auto simp: handle_zmq_def zmq_failure_def finish_def Let_def split: result.splits)
  qed (use that in \<open>auto simp: dispatch_http_def handle_graphql_def handle_grpc_def handle_mqtt_def finish_def
      handle_amqp_def Let_def split: result.splits prod.splits if_splits\<close>)
  from this [OF assms] show ?thesis by simp
qed

lemma refuse_records: "records st (fst (snd (refuse ex mo d e st)))"
  by (cases e) (simp_all add: refuse_def finish_def Let_def)

lemma dispatch_chain:
  "dispatch_transport ex mo d t query hs body st = Some (reply, st', calls) \<Longrightarrow> as_middleware st' = as_middleware st"
  by (drule dispatch_records) (simp add: records_def)

lemma refuse_chain [simp]: "as_middleware (fst (snd (refuse ex mo d e st))) = as_middleware st"
  using refuse_records by (simp add: records_def)

subsection \<open>Nothing reaches a backend unadmitted\<close>

lemma core_request_transparent:
  assumes "chain_handle_request now mw r = (Ok r', mw')"
  shows "r' = r"
  using request_chain.run_transparent [of now mw r r'] assms by simp

lemma refuse_calls: "refuse ex mo d e st = (reply, st', calls) \<Longrightarrow> calls = []"
  by (cases e) (auto simp: refuse_def Let_def finish_def)

text \<open>What it takes to get past \<open>admit_and_dispatch\<close> with a call.\<close>

lemma admit_calls:
  assumes "admit_and_dispatch ex mo d req st = Some (reply, st', calls)" "calls \<noteq> []"
  obtains body mw where "to_bytes (in_body req) MAX_REQUEST_BODY = Some body"
    and "chain_handle_request (mo_now mo) (as_middleware st) (core_request req (rc_transport (d_route d)) body)
      = (Ok (core_request req (rc_transport (d_route d)) body), mw)"
    and "dispatch_transport ex mo d (rc_transport (d_route d)) (in_query req)
      (set_forwarded_for (visible_headers (in_headers req)) (in_remote_ip req)) body
      (st\<lparr>as_middleware := mw\<rparr>) = Some (reply, st', calls)"
proof (cases "to_bytes (in_body req) MAX_REQUEST_BODY")
  case None
  then show thesis using assms by (simp add: admit_and_dispatch_def Let_def finish_def)
next
  case (Some body)
  let ?r = "core_request req (rc_transport (d_route d)) body"
  obtain res mw where chain: "chain_handle_request (mo_now mo) (as_middleware st) ?r = (res, mw)" by force
  show thesis
  proof (cases res)
    case (Err e)
    then show thesis using assms Some chain refuse_calls
      by (fastforce simp: admit_and_dispatch_def Let_def)
  next
    case (Ok r')
    then have "r' = ?r" using chain core_request_transparent by blast
    then show thesis using that [OF Some] assms(1) Some chain Ok
      by (simp add: admit_and_dispatch_def Let_def core_request_def)
  qed
qed

lemma handle_request_calls:
  assumes "handle_request ex mo req st = Some (reply, st', calls)" "calls \<noteq> []"
  obtains r where "\<not> path_contains_traversal (in_path req)"
    and "route (as_router st) (in_method req) (in_path req) = Some r"
proof (cases "path_contains_traversal (in_path req)")
  case True
  then show thesis using assms by (simp add: handle_request_def finish_def)
next
  case False
  then show thesis using assms that
    by (cases "route (as_router st) (in_method req) (in_path req)") (auto simp: handle_request_def finish_def)
qed

text \<open>
  C1: a backend is contacted only for a request that was admitted. If handling a request leads to
  any call, its path has no traversal, a route matched it, its body was within 10 MB, it carried one
  of the configured keys where keys are required and its client was within the rate limit, except on
  WebSocket routes.
\<close>

theorem upstream_calls_admitted:
  assumes "as_middleware st = chain_with config limits"
    and "handle_request ex mo req st = Some (reply, st', calls)" "calls \<noteq> []"
  shows "\<exists>r. \<not> path_contains_traversal (in_path req) \<and>
    route (as_router st) (in_method req) (in_path req) = Some r \<and>
    (is_websocket (rc_transport r) \<or>
     (\<exists>body. to_bytes (in_body req) MAX_REQUEST_BODY = Some body \<and>
        authorised config (core_request req (rc_transport r) body) \<and>
        \<not> fst (limiter_verdict config limits (mo_now mo) (core_request req (rc_transport r) body))))"
proof -
  obtain r where safe: "\<not> path_contains_traversal (in_path req)"
    and r: "route (as_router st) (in_method req) (in_path req) = Some r"
    using handle_request_calls [OF assms(2,3)] by blast
  show ?thesis
  proof (cases "is_websocket (rc_transport r)")
    case True
    then show ?thesis using safe r by blast
  next
    case False
    let ?d = "\<lparr>d_method = in_method req, d_path = in_path req, d_route = r\<rparr>"
    from assms(2) have adm: "admit_and_dispatch ex mo ?d req st = Some (reply, st', calls)"
      using handle_request_cases [OF safe r False] by simp
    obtain body mw where b: "to_bytes (in_body req) MAX_REQUEST_BODY = Some body"
      "chain_handle_request (mo_now mo) (as_middleware st) (core_request req (rc_transport r) body)
        = (Ok (core_request req (rc_transport r) body), mw)"
      by (rule admit_calls [OF adm assms(3)]) simp
    let ?c = "core_request req (rc_transport r) body"
    have "fst (chain_handle_request (mo_now mo) (chain_with config limits) ?c) = Ok ?c"
      using b(2) assms(1) by simp
    then have "authorised config ?c \<and> \<not> fst (limiter_verdict config limits (mo_now mo) ?c)"
      by (rule chain_admits_iff' [THEN iffD1, THEN conjunct2])
    then show ?thesis using safe r b(1) by blast
  qed
qed

definition proxy_config :: gateway_config where
  "proxy_config = minimal_config\<lparr>gc_routes := [http_route ''/api'' []]\<rparr>"

text \<open>A request to a configured route leads to one call, even if the backend refuses it.\<close>

lemma dispatch_http_calls:
  assumes "ex_method_ok ex (d_method d)"
    and "http_assemble (d_method d) (ht_url cfg) (forward_path cfg (d_route d) (d_path d)) query hs body
      (ht_timeout_secs cfg) = Ok rq"
  shows "\<exists>reply st'. dispatch_http ex mo d cfg query hs body st = (reply, st', [Http_Call rq])"
  using assms by (auto simp: dispatch_http_def Let_def http_calls_def finish_def split: result.splits)

lemma admit_open:
  assumes "to_bytes (in_body req) MAX_REQUEST_BODY = Some body"
    and "chain_handle_request (mo_now mo) (as_middleware st) (core_request req (rc_transport (d_route d)) body)
      = (Ok (core_request req (rc_transport (d_route d)) body), mw)"
  shows "admit_and_dispatch ex mo d req st =
    dispatch_transport ex mo d (rc_transport (d_route d)) (in_query req)
      (set_forwarded_for (visible_headers (in_headers req)) (in_remote_ip req)) body (st\<lparr>as_middleware := mw\<rparr>)"
  using assms by (simp add: admit_and_dispatch_def Let_def core_request_def)

lemma open_chain:
  assumes "\<not> au_enabled (ms_auth config)" "\<not> rl_enabled (ms_rate_limit config)"
  shows "chain_handle_request now (chain_with config limits) r = (Ok r, chain_with config limits)"
  using assms by (simp add: chain_with_cases authorised_def limiter_verdict_def)

lemma api_routed:
  "\<not> path_contains_traversal (in_path (get_request ''/api/x''))"
  "gc_routes config = [http_route ''/api'' []] \<Longrightarrow>
     route (as_router (fresh_state config)) (in_method (get_request ''/api/x''))
       (in_path (get_request ''/api/x'')) = Some (http_route ''/api'' [])"
proof -
  show "\<not> path_contains_traversal (in_path (get_request ''/api/x''))"
    by (simp add: get_request_def) code_simp
  have "route (router_new [http_route ''/api'' []]) ''GET'' ''/api/x'' = Some (http_route ''/api'' [])"
    by code_simp
  then show "gc_routes config = [http_route ''/api'' []] \<Longrightarrow>
     route (as_router (fresh_state config)) (in_method (get_request ''/api/x''))
       (in_path (get_request ''/api/x'')) = Some (http_route ''/api'' [])"
    by (simp add: fresh_state_def get_request_def)
qed

lemma api_assembled:
  "http_assemble ''GET'' ''http://127.0.0.1:9000'' ''/api/x'' None [(''x-forwarded-for'', ''10.0.0.1'')] [] 30
    = Ok \<lparr>hq_method = ''GET'', hq_url = ''http://127.0.0.1:9000/api/x'', hq_timeout_secs = 30,
        hq_headers = [(''x-forwarded-for'', ''10.0.0.1'')], hq_body = []\<rparr>"
  by code_simp

lemma api_headers:
  "set_forwarded_for (visible_headers (in_headers (get_request p))) (in_remote_ip (get_request p))
     = [(''x-forwarded-for'', ''10.0.0.1'')]"
  by (simp add: get_request_def set_forwarded_for_def visible_headers_def List.map_filter_simps
      eq_ignore_ascii_case_def)

lemma get_request_fields [simp]:
  "in_method (get_request p) = ''GET''" "in_path (get_request p) = p" "in_query (get_request p) = None"
  "in_body (get_request p) = Inr []" "to_bytes (Inr []) MAX_REQUEST_BODY = Some []"
  by (simp_all add: get_request_def to_bytes_def)

lemma proxied_example:
  obtains reply st' rq where
    "handle_request refusing noon (get_request ''/api/x'') (fresh_state proxy_config)
       = Some (reply, st', [Http_Call rq])"
proof -
  let ?st = "fresh_state proxy_config" and ?req = "get_request ''/api/x''"
  let ?d = "\<lparr>d_method = in_method ?req, d_path = in_path ?req, d_route = http_route ''/api'' []\<rparr>"
  have "route (as_router ?st) (in_method ?req) (in_path ?req) = Some (http_route ''/api'' [])"
    by (intro api_routed(2)) (simp add: proxy_config_def)
  with api_routed(1) have "handle_request refusing noon ?req ?st = admit_and_dispatch refusing noon ?d ?req ?st"
    by (intro handle_request_cases) (simp_all add: http_route_def)
  also have "\<dots> = Some (dispatch_http refusing noon ?d
      \<lparr>ht_url = ''http://127.0.0.1:9000'', ht_timeout_secs = 30, ht_strip_prefix = False\<rparr> None
      [(''x-forwarded-for'', ''10.0.0.1'')] [] ?st)"
  proof (subst admit_open)
    show "to_bytes (in_body ?req) MAX_REQUEST_BODY = Some []" by (simp add: get_request_def to_bytes_def)
    show "chain_handle_request (mo_now noon) (as_middleware ?st)
        (core_request ?req (rc_transport (d_route ?d)) [])
      = (Ok (core_request ?req (rc_transport (d_route ?d)) []), as_middleware ?st)"
      by (simp add: fresh_state_def build_middleware_chain_with proxy_config_def minimal_config_def
          default_middleware_def default_rate_limit_config_def open_chain)
  qed (simp add: api_headers http_route_def)
  finally have eq: "handle_request refusing noon ?req ?st = \<dots>" .
  show thesis using api_assembled that eq dispatch_http_calls [of refusing ?d
      "\<lparr>ht_url = ''http://127.0.0.1:9000'', ht_timeout_secs = 30, ht_strip_prefix = False\<rparr>" None
      "[(''x-forwarded-for'', ''10.0.0.1'')]" "[]"]
    by (fastforce simp: refusing_def get_request_def forward_path_def)
qed

theorem upstream_calls_admitted_witness:
  "\<exists>r. \<not> path_contains_traversal (in_path (get_request ''/api/x'')) \<and>
    route (as_router (fresh_state proxy_config)) (in_method (get_request ''/api/x''))
      (in_path (get_request ''/api/x'')) = Some r \<and>
    (is_websocket (rc_transport r) \<or>
     (\<exists>body. to_bytes (in_body (get_request ''/api/x'')) MAX_REQUEST_BODY = Some body \<and>
        authorised (gc_middleware proxy_config) (core_request (get_request ''/api/x'') (rc_transport r) body) \<and>
        \<not> fst (limiter_verdict (gc_middleware proxy_config) [] (mo_now noon)
          (core_request (get_request ''/api/x'') (rc_transport r) body))))"
proof -
  obtain reply st' rq where
    "handle_request refusing noon (get_request ''/api/x'') (fresh_state proxy_config)
       = Some (reply, st', [Http_Call rq])" by (rule proxied_example)
  then show ?thesis
    by (rule upstream_calls_admitted [rotated]) (simp_all add: fresh_state_def build_middleware_chain_with)
qed

subsection \<open>The client address a backend sees\<close>

definition is_xff :: "string \<times> string \<Rightarrow> bool" where
  "is_xff h \<longleftrightarrow> eq_ignore_ascii_case (fst h) ''x-forwarded-for''"

lemma set_forwarded_for_xff:
  "filter is_xff (set_forwarded_for hs ip) = (if ip = [] then [] else [(''x-forwarded-for'', ip)])"
  by (auto simp: set_forwarded_for_def is_xff_def split_beta eq_ignore_ascii_case_def filter_empty_conv)

lemma xff_lower: "to_lowercase ''x-forwarded-for'' = ''x-forwarded-for''"
  by code_simp

lemma xff_kept:
  "(''x-forwarded-for'', ip) \<in> set (http_forward_headers hs) \<longleftrightarrow> (''x-forwarded-for'', ip) \<in> set hs"
  "(''x-forwarded-for'', ip) \<in> set (graphql_forward_headers hs) \<longleftrightarrow> (''x-forwarded-for'', ip) \<in> set hs"
  "(''x-forwarded-for'', ip) \<in> set (grpc_forward_headers hs) \<longleftrightarrow> (''x-forwarded-for'', ip) \<in> set hs"
  unfolding http_headers.forward_iff graphql_headers.forward_iff grpc_headers.forward_iff xff_lower HOP_BY_HOP_def
  by simp_all

text \<open>The three gateways let the one address through and add no other.\<close>

lemma filter_xff:
  assumes "filter is_xff hs = [h]" "\<exists>P. forward hs = filter P hs" "h \<in> set hs \<longleftrightarrow> h \<in> set (forward hs)"
  shows "filter is_xff (forward hs) = [h]"
proof -
  obtain P where P: "forward hs = filter P hs" using assms(2) by (elim exE)
  have "h \<in> set (filter is_xff hs)" unfolding assms(1) by simp
  then have "h \<in> set (forward hs)" by (intro iffD1 [OF assms(3)]) simp
  then have "P h" unfolding P by simp
  moreover have "filter is_xff (forward hs) = filter P (filter is_xff hs)" unfolding P filter_filter
    by (rule filter_cong) auto
  ultimately show ?thesis by (simp only: assms(1) filter.simps if_True)
qed

lemma forwarded_xff:
  assumes "filter is_xff hs = [(''x-forwarded-for'', ip)]"
  shows "filter is_xff (http_forward_headers hs) = [(''x-forwarded-for'', ip)]"
    and "filter is_xff (graphql_forward_headers hs) = [(''x-forwarded-for'', ip)]"
    and "filter is_xff (grpc_forward_headers hs) = [(''x-forwarded-for'', ip)]"
  by (rule filter_xff [where forward = http_forward_headers, OF assms http_headers.keeps_order xff_kept(1) [symmetric]],
      rule filter_xff [where forward = graphql_forward_headers, OF assms graphql_headers.keeps_order xff_kept(2) [symmetric]],
      rule filter_xff [where forward = grpc_forward_headers, OF assms grpc_headers.keeps_order xff_kept(3) [symmetric]])

lemma own_headers_not_xff: "\<not> is_xff (''content-type'', v)" "\<not> is_xff (''te'', v)"
proof -
  have "\<not> eq_ignore_ascii_case ''content-type'' ''x-forwarded-for''" by code_simp
  moreover have "\<not> eq_ignore_ascii_case ''te'' ''x-forwarded-for''" by code_simp
  ultimately show "\<not> is_xff (''content-type'', v)" "\<not> is_xff (''te'', v)" by (simp_all only: is_xff_def fst_conv not_False_eq_True)
qed

lemma assembled_xff:
  assumes "filter is_xff hs = [(''x-forwarded-for'', ip)]"
  shows "http_assemble m b p q hs body t = Ok rq \<Longrightarrow> filter is_xff (hq_headers rq) = [(''x-forwarded-for'', ip)]"
    and "graphql_assemble u hs body t = Ok rq \<Longrightarrow> filter is_xff (hq_headers rq) = [(''x-forwarded-for'', ip)]"
    and "grpc_assemble b p hs body t = Ok rq \<Longrightarrow> filter is_xff (hq_headers rq) = [(''x-forwarded-for'', ip)]"
  using forwarded_xff [OF assms] own_headers_not_xff
  by (auto simp: http_assemble_def graphql_assemble_def grpc_assemble_def split: if_splits option.splits)

lemma finish_calls [simp]: "snd (snd (finish ex st calls reply)) = calls"
  by (simp add: finish_def)

lemma dispatch_calls_xff:
  assumes "dispatch_transport ex mo d t query hs body st = Some h" "Http_Call rq \<in> set (snd (snd h))"
    and "filter is_xff hs = [(''x-forwarded-for'', ip)]"
  shows "filter is_xff (hq_headers rq) = [(''x-forwarded-for'', ip)]"
  using assms(1,2) assembled_xff [OF assms(3)]
  by (cases t) (auto simp: dispatch_http_def handle_zmq_def zmq_failure_def handle_graphql_def handle_grpc_def
      handle_mqtt_def handle_amqp_def mqtt_calls_def http_calls_def Let_def
      split: result.splits if_splits zmq_pattern.splits prod.splits)

text \<open>
  C16: the address a backend is told is the one on the socket. Every request sent on to an HTTP,
  GraphQL or gRPC backend has exactly one X-Forwarded-For header, in any spelling, and it holds the
  remote address of the connection, whatever such headers the client sent.
\<close>

theorem forwarded_for_socket:
  assumes "handle_request ex mo req st = Some (reply, st', calls)" "Http_Call rq \<in> set calls"
    and "in_remote_ip req \<noteq> []"
  shows "filter is_xff (hq_headers rq) = [(''x-forwarded-for'', in_remote_ip req)]"
proof -
  have "calls \<noteq> []" using assms(2) by auto
  then obtain r where safe: "\<not> path_contains_traversal (in_path req)"
    and r: "route (as_router st) (in_method req) (in_path req) = Some r"
    using handle_request_calls [OF assms(1)] by blast
  let ?d = "\<lparr>d_method = in_method req, d_path = in_path req, d_route = r\<rparr>"
  have "\<not> is_websocket (rc_transport r)"
  proof
    assume "is_websocket (rc_transport r)"
    then show False using assms(1,2) handle_request_websocket [OF safe r]
      by (auto simp: is_websocket_iff handle_ws_route_def finish_def split: option.splits)
  qed
  then have "admit_and_dispatch ex mo ?d req st = Some (reply, st', calls)"
    using assms(1) handle_request_cases [OF safe r] by simp
  then show ?thesis
  proof (rule admit_calls [OF _ \<open>calls \<noteq> []\<close>])
    fix body mw
    assume "dispatch_transport ex mo ?d (rc_transport (d_route ?d)) (in_query req)
      (set_forwarded_for (visible_headers (in_headers req)) (in_remote_ip req)) body
      (st\<lparr>as_middleware := mw\<rparr>) = Some (reply, st', calls)"
    from dispatch_calls_xff [OF this] show ?thesis
      using assms(2,3) by (simp add: set_forwarded_for_xff)
  qed
qed

theorem forwarded_for_socket_witness:
  "\<exists>reply st' rq. handle_request refusing noon (get_request ''/api/x'') (fresh_state proxy_config)
      = Some (reply, st', [Http_Call rq]) \<and>
    filter is_xff (hq_headers rq) = [(''x-forwarded-for'', ''10.0.0.1'')]"
proof -
  obtain reply st' rq where eq:
    "handle_request refusing noon (get_request ''/api/x'') (fresh_state proxy_config)
       = Some (reply, st', [Http_Call rq])" by (rule proxied_example)
  from forwarded_for_socket [OF eq, of rq]
  have "filter is_xff (hq_headers rq) = [(''x-forwarded-for'', ''10.0.0.1'')]"
    by (simp add: get_request_def)
  then show ?thesis using eq by blast
qed

subsection \<open>Refusals\<close>

text \<open>
  C21: the answer to a request the middleware refuses. Without a valid key it is 401; within the
  keys but over the limit it is 429, and its Retry-After header is the configured window in seconds.
  No backend is called in either case.
\<close>

theorem refused_request:
  assumes "as_middleware st = chain_with config limits" "\<not> path_contains_traversal (in_path req)"
    and "route (as_router st) (in_method req) (in_path req) = Some r" "\<not> is_websocket (rc_transport r)"
    and "to_bytes (in_body req) MAX_REQUEST_BODY = Some body"
    and "c = core_request req (rc_transport r) body"
    and "authorised config c \<Longrightarrow> fst (limiter_verdict config limits (mo_now mo) c)"
    and "ex_header_ok ex ''retry-after'' (show_nat (unat (rl_window_secs (ms_rate_limit config))))"
  shows "\<exists>reply st'. handle_request ex mo req st = Some (reply, st', []) \<and>
    re_status reply = (if authorised config c then 429 else 401) \<and>
    (authorised config c \<longrightarrow>
      (''retry-after'', Some (show_nat (unat (rl_window_secs (ms_rate_limit config))))) \<in> set (re_headers reply))"
proof -
  let ?d = "\<lparr>d_method = in_method req, d_path = in_path req, d_route = r\<rparr>"
  have h: "handle_request ex mo req st = admit_and_dispatch ex mo ?d req st"
    using assms by (intro handle_request_cases)
  show ?thesis
  proof (cases "authorised config c")
    case True
    then have "rl_enabled (ms_rate_limit config)" using assms(7) by (auto simp: limiter_verdict_def split: if_splits)
    moreover obtain limits' where "chain_handle_request (mo_now mo) (as_middleware st) c
        = (Err RateLimited, chain_with config limits')"
      using True assms(1,7) by (auto simp: chain_with_cases split_beta)
    ultimately show ?thesis using True assms(5,6,8) unfolding h
      by (auto simp: admit_and_dispatch_def Let_def refuse_def finish_def finalize_response_eq text_reply_def
          visible_headers_def List.map_filter_simps d_record_def record_outcome_def)
  next
    case False
    then obtain m where "chain_handle_request (mo_now mo) (as_middleware st) c
        = (Err (Unauthorized m), chain_with config limits)"
      using unauthorised_error [OF False] assms(1) by (auto simp: chain_with_cases)
    then show ?thesis using False assms(5,6) unfolding h
      by (auto simp: admit_and_dispatch_def Let_def refuse_def finish_def finalize_response_eq)
  qed
qed

text \<open>A configuration that requires a key, with an HTTP and a WebSocket route.\<close>

definition locked_config :: "route_config list \<Rightarrow> gateway_config" where
  "locked_config routes = minimal_config\<lparr>gc_routes := routes,
     gc_middleware := default_middleware\<lparr>ms_auth := \<lparr>au_enabled = True, au_api_keys = [''k'']\<rparr>\<rparr>\<rparr>"

lemma fresh_state_middleware [simp]:
  "as_middleware (fresh_state config) = chain_with (gc_middleware config) []"
  by (simp add: fresh_state_def build_middleware_chain_with)

lemma xff_is_not_authorization: "\<not> eq_ignore_ascii_case ''x-forwarded-for'' ''authorization''"
  by code_simp

lemma locked_unauthorised:
  "\<not> authorised (gc_middleware (locked_config routes)) (core_request (get_request p) t body)"
  "\<not> authorised (gc_middleware (locked_config routes)) (admin_core_request (get_request p))"
  using xff_is_not_authorization
  by (auto simp: authorised_def locked_config_def auth_header_def core_request_def admin_core_request_def
      get_request_def visible_headers_def List.map_filter_simps)

theorem refused_request_witness:
  "\<exists>reply st'. handle_request refusing noon (get_request ''/api/x'')
      (fresh_state (locked_config [http_route ''/api'' []])) = Some (reply, st', []) \<and> re_status reply = 401"
proof -
  let ?c = "locked_config [http_route ''/api'' []]"
  have r: "route (as_router (fresh_state ?c)) (in_method (get_request ''/api/x''))
      (in_path (get_request ''/api/x'')) = Some (http_route ''/api'' [])"
    by (rule api_routed(2)) (simp add: locked_config_def)
  from refused_request [OF fresh_state_middleware api_routed(1) r _ _ refl, of "[]" noon refusing]
  show ?thesis using locked_unauthorised(1) [of "[http_route ''/api'' []]"]
    by (auto simp: http_route_def refusing_def)
qed

text \<open>
  C36: WebSocket routes are not protected. A valid upgrade on a WebSocket route is answered and its
  backend called whatever the middleware holds, without consulting it: neither the key nor the rate
  limit is checked, and the middleware's state stays as it was.
\<close>

theorem websocket_bypasses_middleware:
  assumes "\<not> path_contains_traversal (in_path req)"
    and "route (as_router st) (in_method req) (in_path req) = Some r"
    and "rc_transport r = WebSocket cfg" "in_upgrade req = Some switching"
  shows "\<exists>reply st'. handle_request ex mo req st =
      Some (reply, st', [Ws_Call (wt_url cfg) (wt_timeout_secs cfg)]) \<and>
    as_middleware st' = as_middleware st"
  using handle_request_websocket [OF assms(1-3)] assms(4)
  by (simp add: handle_ws_route_def finish_def d_record_def record_outcome_def)

theorem websocket_bypasses_middleware_witness:
  "\<exists>reply st'. handle_request refusing noon ((get_request ''/ws'')\<lparr>in_upgrade := Some (status_reply 101)\<rparr>)
      (fresh_state (locked_config [\<lparr>rc_path = ''/ws'', rc_methods = [],
        rc_transport = WebSocket \<lparr>wt_url = ''ws://b'', wt_timeout_secs = 5\<rparr>\<rparr>])) =
      Some (reply, st', [Ws_Call ''ws://b'' 5])"
proof -
  let ?r = "\<lparr>rc_path = ''/ws'', rc_methods = [], rc_transport = WebSocket \<lparr>wt_url = ''ws://b'', wt_timeout_secs = 5\<rparr>\<rparr>"
  have "route (router_new [?r]) ''GET'' ''/ws'' = Some ?r" by code_simp
  moreover have "\<not> path_contains_traversal ''/ws''" by code_simp
  ultimately show ?thesis
    using websocket_bypasses_middleware [of "(get_request ''/ws'')\<lparr>in_upgrade := Some (status_reply 101)\<rparr>"
        "fresh_state (locked_config [?r])" ?r "\<lparr>wt_url = ''ws://b'', wt_timeout_secs = 5\<rparr>" _ refusing noon]
    by (auto simp: fresh_state_def locked_config_def get_request_def)
qed

subsection \<open>The admin routes\<close>

text \<open>
  C22: the admin API is behind the same chain. A request that authentication refuses gets a 401 and
  leaves the state unchanged, whatever the admin handler behind it would do.
\<close>

theorem admin_api_protected:
  assumes "as_middleware st = chain_with config limits" "\<not> authorised config (admin_core_request req)"
  shows "\<exists>reply. re_status reply = 401 \<and> (\<forall>inner. admin_middleware ex now inner req st = (reply, st))"
proof -
  obtain m where "chain_handle_request now (as_middleware st) (admin_core_request req)
      = (Err (Unauthorized m), as_middleware st)"
    using unauthorised_error [OF assms(2)] assms by (auto simp: chain_with_cases)
  then show ?thesis
    by (intro exI [of _ "finalize_response ex (as_middleware st) (text_reply 401 m)"])
      (simp add: admin_middleware_def finalize_response_eq)
qed

theorem admin_api_protected_witness:
  "\<exists>reply. re_status reply = 401 \<and>
    (\<forall>inner. admin_middleware refusing 0 inner (get_request ''/admin/api/config'')
      (fresh_state (locked_config [])) = (reply, fresh_state (locked_config [])))"
  by (rule admin_api_protected [OF fresh_state_middleware locked_unauthorised(2)])

subsection \<open>A proxied request, end to end\<close>

lemma visible_headers_Some [simp]: "visible_headers (map (\<lambda>(n, v). (n, Some v)) hs) = hs"
  by (induction hs) (auto simp: visible_headers_def List.map_filter_simps)

text \<open>
  C18: an admitted request on an HTTP route. The backend gets the one request that was assembled for
  it, and the client gets the backend's status, its body and its headers without the hop-by-hop ones.
\<close>

theorem http_route_proxied:
  assumes "sane ex" "as_middleware st = chain_with config limits" "\<not> path_contains_traversal (in_path req)"
    and "route (as_router st) (in_method req) (in_path req) = Some r" "rc_transport r = Http cfg"
    and "to_bytes (in_body req) MAX_REQUEST_BODY = Some body"
    and "authorised config (core_request req (Http cfg) body)"
    and "\<not> fst (limiter_verdict config limits (mo_now mo) (core_request req (Http cfg) body))"
    and "ex_method_ok ex (in_method req)"
    and "http_assemble (in_method req) (ht_url cfg) (forward_path cfg r (in_path req)) (in_query req)
      (set_forwarded_for (visible_headers (in_headers req)) (in_remote_ip req)) body (ht_timeout_secs cfg) = Ok rq"
    and "ex_http ex rq = Inr resp" "hp_body resp = Inr content"
  shows "\<exists>st'. handle_request ex mo req st =
    Some (\<lparr>re_status = hp_status resp, re_headers = map (\<lambda>(n, v). (n, Some v)) (response_headers resp),
           re_body = content\<rparr>, st', [Http_Call rq])"
proof -
  let ?d = "\<lparr>d_method = in_method req, d_path = in_path req, d_route = r\<rparr>"
  have ok: "exchange Protocol (ex_http ex) rq = Ok (hp_status resp, response_headers resp, content)"
    using assms(11,12) by (simp add: exchange_def)
  then have fits: "fits ex (hp_status resp) (response_headers resp)"
    using assms(1) exchange_fits by (auto simp: sane_def)
  then have built: "build_response ex (hp_status resp) (response_headers resp) content =
      \<lparr>re_status = hp_status resp, re_headers = map (\<lambda>(n, v). (n, Some v)) (response_headers resp),
       re_body = content\<rparr>"
    by (simp add: build_response_def fits_def)
  have same: "filter (\<lambda>(n, v). ex_header_ok ex n v) (response_headers resp) = response_headers resp"
    using fits by (simp add: fits_def list_all_iff filter_id_conv)
  have chain: "chain_handle_request (mo_now mo) (as_middleware st)
      (core_request req (rc_transport (d_route ?d)) body)
    = (Ok (core_request req (rc_transport (d_route ?d)) body),
       chain_with config (snd (limiter_verdict config limits (mo_now mo) (core_request req (Http cfg) body))))"
    using assms(2,5,7,8) by (simp add: chain_with_cases split_beta)
  have "handle_request ex mo req st = admit_and_dispatch ex mo ?d req st"
    using assms(3-5) by (intro handle_request_cases) simp_all
  also have "\<dots> = Some (dispatch_http ex mo ?d cfg (in_query req)
      (set_forwarded_for (visible_headers (in_headers req)) (in_remote_ip req)) body
      (st\<lparr>as_middleware := chain_with config
        (snd (limiter_verdict config limits (mo_now mo) (core_request req (Http cfg) body)))\<rparr>))"
    using admit_open [OF assms(6) chain] assms(5) by simp
  finally show ?thesis using assms(9,10) ok fits built same
    by (simp add: dispatch_http_def Let_def http_proxy_def http_calls_def finish_def finalize_response_eq fits_def)
qed

theorem http_route_proxied_witness:
  "\<exists>st'. handle_request
      (refusing\<lparr>ex_http := \<lambda>_. Inr \<lparr>hp_status = 200, hp_headers = [(''connection'', Some ''close''),
         (''server'', Some ''b'')], hp_body = Inr [111, 107]\<rparr>\<rparr>)
      noon (get_request ''/api/x'') (fresh_state proxy_config) =
    Some (\<lparr>re_status = 200, re_headers = [(''server'', Some ''b'')], re_body = [111, 107]\<rparr>, st',
      [Http_Call \<lparr>hq_method = ''GET'', hq_url = ''http://127.0.0.1:9000/api/x'', hq_timeout_secs = 30,
        hq_headers = [(''x-forwarded-for'', ''10.0.0.1'')], hq_body = []\<rparr>])"
proof -
  let ?resp = "\<lparr>hp_status = 200, hp_headers = [(''connection'', Some ''close''), (''server'', Some ''b'')],
    hp_body = Inr [111, 107]\<rparr> :: http_response"
  let ?ex = "refusing\<lparr>ex_http := \<lambda>_. Inr ?resp\<rparr>"
  let ?cfg = "\<lparr>ht_url = ''http://127.0.0.1:9000'', ht_timeout_secs = 30, ht_strip_prefix = False\<rparr>"
  have r: "route (as_router (fresh_state proxy_config)) (in_method (get_request ''/api/x''))
      (in_path (get_request ''/api/x'')) = Some (http_route ''/api'' [])"
    by (rule api_routed(2)) (simp add: proxy_config_def)
  have t: "rc_transport (http_route ''/api'' []) = Http ?cfg" by (simp add: http_route_def)
  have s: "sane ?ex" by (simp add: sane_def sane_client_def refusing_def)
  have open_config: "\<not> au_enabled (ms_auth (gc_middleware proxy_config))"
    "\<not> rl_enabled (ms_rate_limit (gc_middleware proxy_config))"
    by (simp_all add: proxy_config_def minimal_config_def default_middleware_def default_rate_limit_config_def)
  have hs: "response_headers ?resp = [(''server'', ''b'')]" by code_simp
  from http_route_proxied [OF s fresh_state_middleware api_routed(1) r t, of "[]" noon
      "\<lparr>hq_method = ''GET'', hq_url = ''http://127.0.0.1:9000/api/x'', hq_timeout_secs = 30,
        hq_headers = [(''x-forwarded-for'', ''10.0.0.1'')], hq_body = []\<rparr>" ?resp "[111, 107]"]
  show ?thesis using open_config api_assembled
    by (simp add: hs authorised_def limiter_verdict_def api_headers forward_path_def)
      (simp add: refusing_def)
qed

end
