(* ===== verification/Admission.thy ===== *)
theory Admission
  imports Request_Handling
begin

section \<open>What one request does to the limiter\<close>

text \<open>
  Whatever a request or a call of the admin API does, the middleware chain sees at most one run of
  the limiter for it, and a backend is called, other than over WebSocket, only if that run let it
  through. The runs of a whole gateway, in sequence and interleaved, rest on these facts.
\<close>

fun is_ws_call :: "upstream_call \<Rightarrow> bool" where
  "is_ws_call (Ws_Call url t) = True"
| "is_ws_call c = False"

text \<open>One request at the chain, as a run of the limiter on the events that reach it.\<close>

definition one_call :: "middleware_section_config \<Rightarrow> limits \<Rightarrow> instant \<Rightarrow> string \<Rightarrow> chain \<Rightarrow> bool \<Rightarrow> bool" where
  "one_call config limits now ip mw passed \<longleftrightarrow>
     (let run = limiter_run (rl_requests_per_window (ms_rate_limit config))
                  (unat (rl_window_secs (ms_rate_limit config)) * NANOS_PER_SEC) limits
      in \<exists>evs. evs \<in> {[], [(now, ip)]} \<and> mw = chain_with config (snd (run evs))
           \<and> (passed \<longrightarrow> fst (run evs) = [(now, ip)]))"

lemma one_call_idle: "one_call config limits now ip (chain_with config limits) False"
  by (auto simp: one_call_def Let_def)

lemma one_call_chain:
  assumes "rl_enabled (ms_rate_limit config)" "client_key r = ip"
    and "chain_handle_request now (chain_with config limits) r = (res, mw)"
  shows "one_call config limits now ip mw (is_ok res)"
proof (cases "authorised config r")
  case True
  then show ?thesis using assms
    by (auto simp: one_call_def Let_def chain_with_cases limiter_verdict_def split: prod.splits if_splits
        intro!: exI [of _ "[(now, ip)]"])
next
  case False
  then show ?thesis using assms unauthorised_error [OF False] one_call_idle
    by (auto simp: chain_with_cases)
qed

lemma one_call_weaken: "one_call config limits now ip mw passed \<Longrightarrow> (p \<Longrightarrow> passed) \<Longrightarrow> one_call config limits now ip mw p"
  by (auto simp: one_call_def Let_def)

lemma gateway_one_call:
  assumes chain: "as_middleware st = chain_with config limits" and on: "rl_enabled (ms_rate_limit config)"
    and "handle_request ex mo req st = Some (reply, st', calls)"
  shows "one_call config limits (mo_now mo) (in_remote_ip req) (as_middleware st') (\<not> list_all is_ws_call calls)"
proof -
  consider (stopped) "as_middleware st' = as_middleware st" "list_all is_ws_call calls"
    | (admit) r where "admit_and_dispatch ex mo \<lparr>d_method = in_method req, d_path = in_path req, d_route = r\<rparr> req st
        = Some (reply, st', calls)"
    using assms(3)
    by (auto simp: handle_request_def handle_ws_route_def finish_def Let_def
        split: if_splits option.splits transport_config.splits)
  then show ?thesis
  proof cases
    case stopped
    then show ?thesis using chain one_call_idle by simp
  next
    case admit
    show ?thesis
    proof (cases "to_bytes (in_body req) MAX_REQUEST_BODY")
      case None
      then show ?thesis using admit chain one_call_idle by (auto simp: admit_and_dispatch_def Let_def finish_def)
    next
      case (Some body)
      let ?c = "core_request req (rc_transport r) body"
      obtain res mw where run: "chain_handle_request (mo_now mo) (as_middleware st) ?c = (res, mw)" by force
      have call: "one_call config limits (mo_now mo) (in_remote_ip req) mw (is_ok res)"
        using run chain by (intro one_call_chain [OF on]) (simp_all add: core_request_def client_key_def)
      show ?thesis
      proof (cases res)
        case (Err e)
        then have "refuse ex mo \<lparr>d_method = in_method req, d_path = in_path req, d_route = r\<rparr> e
            (st\<lparr>as_middleware := mw\<rparr>) = (reply, st', calls)"
          using admit Some run by (simp add: admit_and_dispatch_def Let_def)
        then have "calls = []" "as_middleware st' = mw"
          using refuse_calls refuse_chain by (metis, metis fst_conv snd_conv app_state.select_convs(3) app_state.surjective app_state.update_convs(3))
        then show ?thesis using call by (auto intro: one_call_weaken)
      next
        case (Ok c)
        then have "as_middleware st' = mw"
          using admit Some run dispatch_chain by (fastforce simp: admit_and_dispatch_def Let_def)
        then show ?thesis using call Ok by (auto intro: one_call_weaken)
      qed
    qed
  qed
qed

lemma admin_one_call:
  assumes "as_middleware st = chain_with config limits" "rl_enabled (ms_rate_limit config)"
    and "\<And>st. as_middleware (snd (inner st)) = as_middleware st"
  shows "one_call config limits now (in_remote_ip req) (as_middleware (snd (admin_middleware ex now inner req st))) False"
proof -
  obtain res mw where run: "chain_handle_request now (as_middleware st) (admin_core_request req) = (res, mw)" by force
  then have "one_call config limits now (in_remote_ip req) mw (is_ok res)"
    using assms(1) by (intro one_call_chain [OF assms(2)]) (simp_all add: admin_core_request_def client_key_def)
  moreover have "as_middleware (snd (inner (st\<lparr>as_middleware := mw\<rparr>))) = mw"
    using assms(3) by simp
  then have "as_middleware (snd (admin_middleware ex now inner req st)) = mw"
    using run by (auto simp: admin_middleware_def Let_def split: result.splits error.splits prod.splits)
  ultimately show ?thesis by (auto intro: one_call_weaken)
qed

lemma limiter_run_append:
  "limiter_run limit window limits (xs @ ys) =
     (case limiter_run limit window limits xs of (h, limits') \<Rightarrow>
        map_prod (append h) id (limiter_run limit window limits' ys))"
proof (induction limit window limits xs rule: limiter_run.induct)
  case (1 limit window limits)
  show ?case by (cases "limiter_run limit window limits ys") simp
next
  case (2 limit window limits now key es)
  obtain b limits' where call: "is_rate_limited limits now key limit window = (b, limits')" by force
  then show ?case using "2.IH"(1) [OF call [symmetric]] "2.IH"(2) [OF call [symmetric]]
    by (cases b) (simp_all add: map_prod_def split_beta)
qed

end
