(* ===== verification/Listeners.thy ===== *)
theory Listeners
  imports Brokers Http_Upstreams
begin

section \<open>Listeners: ZeroMQ, MQTT and AMQP into HTTP (src/gateway/zmq.rs, mqtt.rs, amqp.rs)\<close>

text \<open>
  A listener is a session inside a supervising loop. A session connects, then forwards each message
  it receives as an HTTP POST, until the connection ends; the loop starts it again after a delay
  until the gateway shuts down. What the client libraries deliver is an argument: the results of
  setting the session up and the list of the items received until the stream ends. A session's
  effects are the requests it sends and its acknowledgements, in order, with the failures of the latter, which it
  logs.
\<close>

datatype listener_effect =
    Post http_request
  | Ack u64
  | Nack u64 bool
  | Settle_Error string
  | Mqtt_Subscribe string qos
  | Mqtt_Disconnect
  | Close_Connection u16 string

definition listener_post :: "string \<Rightarrow> headers \<Rightarrow> bytes \<Rightarrow> http_request" where
  "listener_post url hs body =
     \<lparr>hq_method = ''POST'', hq_url = url, hq_timeout_secs = 30, hq_headers = hs, hq_body = body\<rparr>"

subsection \<open>run\_pull\_session (zmq.rs)\<close>

datatype zmq_item = Zmq_Received zmq_message | Zmq_Recv_Error string

definition pull_post :: "zmq_pull_listener_config \<Rightarrow> zmq_message \<Rightarrow> http_request" where
  "pull_post cfg msg =
     listener_post (zl_forward_to cfg)
       [(''content-type'', ''application/octet-stream''), (''x-zmq-source'', ''ironbabel-pull-listener'')]
       (msg_to_bytes msg)"

fun pull_loop :: "zmq_pull_listener_config \<Rightarrow> zmq_item list \<Rightarrow> listener_effect list" where
  "pull_loop cfg [] = []"
| "pull_loop cfg (Zmq_Received msg # items) = Post (pull_post cfg msg) # pull_loop cfg items"
| "pull_loop cfg (Zmq_Recv_Error e # items) = []"

definition run_pull_session ::
  "(string \<Rightarrow> string + unit) \<Rightarrow> zmq_item list \<Rightarrow> zmq_pull_listener_config \<Rightarrow> listener_effect list" where
  "run_pull_session bind_socket items cfg =
     (case bind_socket (to_tcp_addr (zl_bind cfg)) of
        Inl e \<Rightarrow> []
      | Inr _ \<Rightarrow> pull_loop cfg items)"

subsection \<open>run\_sub\_session (mqtt.rs)\<close>

record mqtt_incoming =
  mi_topic :: string
  mi_qos :: qos
  mi_retain :: bool
  mi_payload :: bytes

datatype mqtt_sub_item = Sub_Publish mqtt_incoming | Sub_Other | Sub_Error string

definition sub_post :: "mqtt_sub_listener_config \<Rightarrow> mqtt_incoming \<Rightarrow> http_request" where
  "sub_post cfg p =
     listener_post (ml_forward_to cfg)
       [(''content-type'', ''application/octet-stream''),
        (''x-mqtt-source'', ''iron-babel-mqtt-listener''),
        (''x-mqtt-topic'', mi_topic p),
        (''x-mqtt-qos'', show_nat (unat (qos_to_u8 (mi_qos p)))),
        (''x-mqtt-retain'', if mi_retain p then ''true'' else ''false'')]
       (mi_payload p)"

fun sub_loop :: "mqtt_sub_listener_config \<Rightarrow> mqtt_sub_item list \<Rightarrow> listener_effect list" where
  "sub_loop cfg [] = []"
| "sub_loop cfg (Sub_Publish p # items) = Post (sub_post cfg p) # sub_loop cfg items"
| "sub_loop cfg (Sub_Other # items) = sub_loop cfg items"
| "sub_loop cfg (Sub_Error e # items) = []"

text \<open>The subscriptions of a session: the requests made, and whether all of them were taken.\<close>

fun subscribe_all :: "(string \<Rightarrow> qos \<Rightarrow> string + unit) \<Rightarrow> qos \<Rightarrow> string list \<Rightarrow> listener_effect list \<times> bool" where
  "subscribe_all subscribe q [] = ([], True)"
| "subscribe_all subscribe q (topic # topics) =
     (case subscribe topic q of
        Inl e \<Rightarrow> ([Mqtt_Subscribe topic q, Mqtt_Disconnect], False)
      | Inr _ \<Rightarrow> map_prod ((#) (Mqtt_Subscribe topic q)) id (subscribe_all subscribe q topics))"

record mqtt_subscriber =
  msc_subscribe :: "mqtt_connect_options \<Rightarrow> string \<Rightarrow> qos \<Rightarrow> string + unit"
  msc_items :: "mqtt_connect_options \<Rightarrow> mqtt_sub_item list"

definition run_sub_session ::
  "mqtt_subscriber \<Rightarrow> u64 \<Rightarrow> mqtt_sub_listener_config \<Rightarrow> broker_endpoint \<Rightarrow> qos \<Rightarrow> listener_effect list \<times> u64" where
  "run_sub_session client counter cfg endpoint q =
     (case (case ml_client_id cfg of
              Some c \<Rightarrow> (c, counter)
            | None \<Rightarrow> next_client_id ''iron-babel-sub'' counter) of
        (client_id, counter') \<Rightarrow>
          let options = (mqtt_options endpoint client_id)\<lparr>co_keep_alive_secs := Some 5\<rparr>
          in case subscribe_all (msc_subscribe client options) q (ml_topics cfg) of
               (effects, True) \<Rightarrow> (effects @ sub_loop cfg (msc_items client options), counter')
             | (effects, False) \<Rightarrow> (effects, counter'))"

subsection \<open>run\_consumer\_session (amqp.rs)\<close>

record delivery =
  dl_exchange :: string
  dl_routing_key :: string
  dl_delivery_tag :: u64
  dl_redelivered :: bool
  dl_data :: bytes

datatype consumer_item = Delivered delivery | Delivery_Error string

record consumer_broker =
  cb_connect :: "string \<Rightarrow> string + unit"
  cb_create_channel :: "string + unit"
  cb_basic_consume :: "string \<Rightarrow> string \<Rightarrow> bool \<Rightarrow> string + consumer_item list"

definition next_consumer_tag :: "u64 \<Rightarrow> string \<times> u64" where
  "next_consumer_tag counter = (''iron-babel-amqp-consumer-'' @ show_nat (unat counter), counter + 1)"

definition delivery_post :: "amqp_consume_listener_config \<Rightarrow> delivery \<Rightarrow> http_request" where
  "delivery_post cfg d =
     listener_post (al_forward_to cfg)
       [(''content-type'', ''application/octet-stream''),
        (''x-amqp-source'', ''iron-babel-amqp-listener''),
        (''x-amqp-exchange'', dl_exchange d),
        (''x-amqp-routing-key'', dl_routing_key d),
        (''x-amqp-delivery-tag'', show_nat (unat (dl_delivery_tag d)))]
       (dl_data d)"

definition is_success :: "u16 \<Rightarrow> bool" where
  "is_success status \<longleftrightarrow> 200 \<le> status \<and> status < 300"

text \<open>
  What the consumer meets: the target's answer to a request, and the broker's to an acknowledgement or rejection.
  Either may depend on everything the listener has done before, so the same request may be answered
  differently each time.
\<close>

record consumer_world =
  cw_send :: "listener_effect list \<Rightarrow> http_client"
  cw_settle :: "listener_effect list \<Rightarrow> listener_effect \<Rightarrow> string + unit"

definition forwarded_ok :: "http_client \<Rightarrow> http_request \<Rightarrow> bool" where
  "forwarded_ok send req = (case send req of Inr resp \<Rightarrow> is_success (hp_status resp) | Inl e \<Rightarrow> False)"

definition acknowledge ::
  "consumer_world \<Rightarrow> listener_effect list \<Rightarrow> amqp_consume_listener_config \<Rightarrow> delivery \<Rightarrow> bool \<Rightarrow> listener_effect list" where
  "acknowledge world past cfg d ok =
     (if al_auto_ack cfg then []
      else let call = (if ok then Ack (dl_delivery_tag d)
                       else Nack (dl_delivery_tag d) (\<not> dl_redelivered d))
           in case cw_settle world past call of
                Inl e \<Rightarrow> [call, Settle_Error e]
              | Inr _ \<Rightarrow> [call])"

definition handle_delivery ::
  "consumer_world \<Rightarrow> listener_effect list \<Rightarrow> amqp_consume_listener_config \<Rightarrow> delivery \<Rightarrow> listener_effect list" where
  "handle_delivery world past cfg d =
     (let req = delivery_post cfg d
      in Post req # acknowledge world (past @ [Post req]) cfg d (forwarded_ok (cw_send world past) req))"

fun consumer_loop ::
  "consumer_world \<Rightarrow> listener_effect list \<Rightarrow> amqp_consume_listener_config \<Rightarrow> consumer_item list \<Rightarrow> listener_effect list" where
  "consumer_loop world past cfg [] = []"
| "consumer_loop world past cfg (Delivered d # items) =
     (let effects = handle_delivery world past cfg d
      in effects @ consumer_loop world (past @ effects) cfg items)"
| "consumer_loop world past cfg (Delivery_Error e # items) = []"

definition run_consumer_session ::
  "consumer_world \<Rightarrow> listener_effect list \<Rightarrow> consumer_broker \<Rightarrow> u64 \<Rightarrow> amqp_consume_listener_config
     \<Rightarrow> listener_effect list \<times> u64" where
  "run_consumer_session world past broker counter cfg =
     (case cb_connect broker (al_broker_url cfg) of
        Inl e \<Rightarrow> ([], counter)
      | Inr _ \<Rightarrow>
          (case cb_create_channel broker of
             Inl e \<Rightarrow> ([Close_Connection 500 ''channel failure''], counter)
           | Inr _ \<Rightarrow>
               (case (case al_consumer_tag cfg of
                        Some t \<Rightarrow> (t, counter)
                      | None \<Rightarrow> next_consumer_tag counter) of
                  (tag, counter') \<Rightarrow>
                    (case cb_basic_consume broker (al_queue cfg) tag (al_auto_ack cfg) of
                       Inl e \<Rightarrow> ([Close_Connection 500 ''subscribe failure''], counter')
                     | Inr items \<Rightarrow> (consumer_loop world past cfg items, counter')))))"

subsection \<open>The supervising loops\<close>

text \<open>
  The loop of each listener is a pair of \<open>select!\<close>s. Its state says which one it waits in; an event
  is the branch that fires. The three loops are the same, with the MQTT one refusing to start on a
  bad address or quality of service.
\<close>

datatype listener_state = In_Session | Backing_Off | Stopped

datatype listener_event = Shutdown_Signalled | Session_Ended | Delay_Elapsed

definition RECONNECT_DELAY_SECS :: nat where
  "RECONNECT_DELAY_SECS = 5"

fun pull_listener_step :: "listener_state \<Rightarrow> listener_event \<Rightarrow> listener_state" where
  "pull_listener_step In_Session Shutdown_Signalled = Stopped"
| "pull_listener_step In_Session Session_Ended = Backing_Off"
| "pull_listener_step In_Session Delay_Elapsed = In_Session"
| "pull_listener_step Backing_Off Shutdown_Signalled = Stopped"
| "pull_listener_step Backing_Off Session_Ended = Backing_Off"
| "pull_listener_step Backing_Off Delay_Elapsed = In_Session"
| "pull_listener_step Stopped e = Stopped"

fun consumer_listener_step :: "listener_state \<Rightarrow> listener_event \<Rightarrow> listener_state" where
  "consumer_listener_step In_Session Shutdown_Signalled = Stopped"
| "consumer_listener_step In_Session Session_Ended = Backing_Off"
| "consumer_listener_step In_Session Delay_Elapsed = In_Session"
| "consumer_listener_step Backing_Off Shutdown_Signalled = Stopped"
| "consumer_listener_step Backing_Off Session_Ended = Backing_Off"
| "consumer_listener_step Backing_Off Delay_Elapsed = In_Session"
| "consumer_listener_step Stopped e = Stopped"

definition sub_listener_start :: "mqtt_sub_listener_config \<Rightarrow> listener_state" where
  "sub_listener_start cfg =
     (case parse_broker_url (ml_broker_url cfg) of
        Err e \<Rightarrow> Stopped
      | Ok endpoint \<Rightarrow> (case qos_from_u8 (ml_qos cfg) of Err e \<Rightarrow> Stopped | Ok q \<Rightarrow> In_Session))"

fun sub_listener_step :: "listener_state \<Rightarrow> listener_event \<Rightarrow> listener_state" where
  "sub_listener_step In_Session Shutdown_Signalled = Stopped"
| "sub_listener_step In_Session Session_Ended = Backing_Off"
| "sub_listener_step In_Session Delay_Elapsed = In_Session"
| "sub_listener_step Backing_Off Shutdown_Signalled = Stopped"
| "sub_listener_step Backing_Off Session_Ended = Backing_Off"
| "sub_listener_step Backing_Off Delay_Elapsed = In_Session"
| "sub_listener_step Stopped e = Stopped"

subsection \<open>The interface of a supervised listener\<close>

locale supervised =
  fixes step :: "listener_state \<Rightarrow> listener_event \<Rightarrow> listener_state"
  assumes stop: "step s Shutdown_Signalled = Stopped"
    and stay: "step Stopped e = Stopped"
    and session_over: "step In_Session Session_Ended = Backing_Off"
    and restart: "step Backing_Off Delay_Elapsed = In_Session"
    and no_giving_up: "s \<noteq> Stopped \<Longrightarrow> e \<noteq> Shutdown_Signalled \<Longrightarrow> step s e \<noteq> Stopped"
begin

definition after :: "listener_state \<Rightarrow> listener_event list \<Rightarrow> listener_state" where
  "after s es = foldl step s es"

lemma after_Stopped [simp]: "after Stopped es = Stopped"
  by (induction es rule: rev_induct) (simp_all add: after_def stay)

lemma after_Cons [simp]: "after s (e # es) = after (step s e) es"
  by (simp add: after_def)

text \<open>A listener stops when shutdown is signalled, then, and only then.\<close>

lemma stopped_iff: "s \<noteq> Stopped \<Longrightarrow> after s es = Stopped \<longleftrightarrow> Shutdown_Signalled \<in> set es"
proof (induction es arbitrary: s)
  case Nil
  then show ?case by (simp add: after_def)
next
  case (Cons e es)
  show ?case
  proof (cases "e = Shutdown_Signalled")
    case True
    then show ?thesis by (simp add: stop)
  next
    case False
    then show ?thesis using Cons.IH [OF no_giving_up [OF Cons.prems False]] by simp
  qed
qed

text \<open>However often sessions end, after the delay there is a new one.\<close>

lemma reconnects: "after In_Session (concat (replicate n [Session_Ended, Delay_Elapsed])) = In_Session"
  by (induction n) (simp_all add: after_def session_over restart)

end

interpretation pull_listener: supervised pull_listener_step
proof unfold_locales
  show "pull_listener_step s Shutdown_Signalled = Stopped" for s by (cases s) simp_all
  show "s \<noteq> Stopped \<Longrightarrow> e \<noteq> Shutdown_Signalled \<Longrightarrow> pull_listener_step s e \<noteq> Stopped" for s e
    by (cases s; cases e) simp_all
qed simp_all

interpretation consumer_listener: supervised consumer_listener_step
proof unfold_locales
  show "consumer_listener_step s Shutdown_Signalled = Stopped" for s by (cases s) simp_all
  show "s \<noteq> Stopped \<Longrightarrow> e \<noteq> Shutdown_Signalled \<Longrightarrow> consumer_listener_step s e \<noteq> Stopped" for s e
    by (cases s; cases e) simp_all
qed simp_all

interpretation sub_listener: supervised sub_listener_step
proof unfold_locales
  show "sub_listener_step s Shutdown_Signalled = Stopped" for s by (cases s) simp_all
  show "s \<noteq> Stopped \<Longrightarrow> e \<noteq> Shutdown_Signalled \<Longrightarrow> sub_listener_step s e \<noteq> Stopped" for s e
    by (cases s; cases e) simp_all
qed simp_all

text \<open>
  Each of the three listeners stops exactly when shutdown has been signalled, whatever else
  happens before: it never gives up on a broken connection and never outlives a shutdown.
\<close>

lemma listeners_stop_iff:
  "(foldl pull_listener_step In_Session es = Stopped) = (Shutdown_Signalled \<in> set es) \<and>
   (foldl consumer_listener_step In_Session es = Stopped) = (Shutdown_Signalled \<in> set es) \<and>
   (foldl sub_listener_step (sub_listener_start cfg) es = Stopped) =
     (sub_listener_start cfg = Stopped \<or> Shutdown_Signalled \<in> set es)"
proof (intro conjI)
  show "(foldl pull_listener_step In_Session es = Stopped) = (Shutdown_Signalled \<in> set es)"
    using pull_listener.stopped_iff [of In_Session es] by (simp add: pull_listener.after_def)
  show "(foldl consumer_listener_step In_Session es = Stopped) = (Shutdown_Signalled \<in> set es)"
    using consumer_listener.stopped_iff [of In_Session es] by (simp add: consumer_listener.after_def)
  show "(foldl sub_listener_step (sub_listener_start cfg) es = Stopped) =
      (sub_listener_start cfg = Stopped \<or> Shutdown_Signalled \<in> set es)"
    using sub_listener.stopped_iff [of "sub_listener_start cfg" es] sub_listener.after_Stopped [of es]
    by (cases "sub_listener_start cfg = Stopped") (simp_all add: sub_listener.after_def)
qed

subsection \<open>What a session forwards\<close>

lemma pull_loop_received: "pull_loop cfg (map Zmq_Received ms @ Zmq_Recv_Error e # rest)
    = map (\<lambda>m. Post (pull_post cfg m)) ms"
  by (induction ms) simp_all

end
