(* ===== verification/Lifecycle.thy ===== *)
theory Lifecycle
  imports Request_Handling Listeners
begin

section \<open>Shutdown signal and gateway lifecycle (src/core/shutdown.rs, gateway.rs)\<close>

text \<open>
  The latching shutdown signal as a state machine: any number of tasks run \<open>wait\<close>, interleaved step
  by step with \<open>trigger\<close> and \<open>reset\<close>. \<open>Notify\<close> is tokio's: \<open>notify_waiters\<close> wakes the futures that
  are registered at that moment and stores nothing for later ones. Then starting and stopping the
  gateway.
\<close>

subsection \<open>The signal\<close>

text \<open>
  Where a task is in \<open>wait\<close>: before registering, registered and about to check the flag, awaiting
  the notification, about to check again, returned.
\<close>

datatype wait_pc = Enter | Registered | Awaiting | Rechecking | Returned

record shutdown_state =
  sh_triggered :: bool
  sh_notifying :: nat
  sh_pc :: "nat \<Rightarrow> wait_pc"
  sh_woken :: "nat \<Rightarrow> bool"

definition shutdown_new :: shutdown_state where
  "shutdown_new = \<lparr>sh_triggered = False, sh_notifying = 0, sh_pc = \<lambda>_. Enter, sh_woken = \<lambda>_. False\<rparr>"

definition is_triggered :: "shutdown_state \<Rightarrow> bool" where
  "is_triggered s = sh_triggered s"

text \<open>\<open>trigger\<close>: the store, then the notification.\<close>

definition trigger_store :: "shutdown_state \<Rightarrow> shutdown_state" where
  "trigger_store s = s\<lparr>sh_triggered := True, sh_notifying := sh_notifying s + 1\<rparr>"

definition notify_waiters :: "shutdown_state \<Rightarrow> shutdown_state" where
  "notify_waiters s =
     s\<lparr>sh_notifying := sh_notifying s - 1,
       sh_woken := \<lambda>i. if sh_pc s i = Registered \<or> sh_pc s i = Awaiting then True else sh_woken s i\<rparr>"

definition reset :: "shutdown_state \<Rightarrow> shutdown_state" where
  "reset s = s\<lparr>sh_triggered := False\<rparr>"

text \<open>The next step of a task in \<open>wait\<close>; awaiting without having been woken it has none.\<close>

definition wait_step :: "nat \<Rightarrow> shutdown_state \<Rightarrow> shutdown_state option" where
  "wait_step i s =
     (case sh_pc s i of
        Enter \<Rightarrow> Some (s\<lparr>sh_pc := (sh_pc s)(i := Registered), sh_woken := (sh_woken s)(i := False)\<rparr>)
      | Registered \<Rightarrow> Some (s\<lparr>sh_pc := (sh_pc s)(i := if is_triggered s then Returned else Awaiting)\<rparr>)
      | Awaiting \<Rightarrow> if sh_woken s i then Some (s\<lparr>sh_pc := (sh_pc s)(i := Rechecking)\<rparr>) else None
      | Rechecking \<Rightarrow> Some (s\<lparr>sh_pc := (sh_pc s)(i := if is_triggered s then Returned else Enter)\<rparr>)
      | Returned \<Rightarrow> None)"

datatype signal_action = Wait nat | Trigger | Notify | Reset

inductive signal_step :: "shutdown_state \<Rightarrow> signal_action \<Rightarrow> shutdown_state \<Rightarrow> bool" where
  Wait: "wait_step i s = Some s' \<Longrightarrow> signal_step s (Wait i) s'"
| Trigger: "signal_step s Trigger (trigger_store s)"
| Notify: "0 < sh_notifying s \<Longrightarrow> signal_step s Notify (notify_waiters s)"
| Reset: "signal_step s Reset (reset s)"

inductive_cases signal_stepE: "signal_step s a s'"

inductive signal_run :: "shutdown_state \<Rightarrow> signal_action list \<Rightarrow> shutdown_state \<Rightarrow> bool" where
  Nil: "signal_run s [] s"
| Snoc: "signal_run s as s' \<Longrightarrow> signal_step s' a s'' \<Longrightarrow> signal_run s (as @ [a]) s''"

subsection \<open>No wake-up is lost\<close>

text \<open>
  The invariant: while the flag is set and its notification is through, no task sleeps; a task that
  registers later finds the flag.
\<close>

definition no_sleeper :: "shutdown_state \<Rightarrow> bool" where
  "no_sleeper s \<longleftrightarrow> (sh_triggered s \<and> sh_notifying s = 0 \<longrightarrow> (\<forall>i. sh_pc s i = Awaiting \<longrightarrow> sh_woken s i))"

lemma wait_step_no_sleeper [inv_intros]:
  assumes "wait_step i s = Some s'" "no_sleeper s"
  shows "no_sleeper s'"
  using assms by (auto simp: wait_step_def no_sleeper_def is_triggered_def split: wait_pc.splits if_splits)

lemma signal_step_no_sleeper [inv_intros]:
  assumes "signal_step s a s'" "no_sleeper s"
  shows "no_sleeper s'"
  using assms
proof (cases rule: signal_step.cases)
  case (Wait i)
  then show ?thesis using assms(2) by (blast intro: inv_intros)
qed (auto simp: no_sleeper_def trigger_store_def notify_waiters_def reset_def)

lemma signal_run_no_sleeper: "signal_run s as s' \<Longrightarrow> no_sleeper s \<Longrightarrow> no_sleeper s'"
  by (induction rule: signal_run.induct) (auto intro: inv_intros)

text \<open>With the flag set and nobody asleep, every step of a task brings it closer to its return.\<close>

definition awake :: "shutdown_state \<Rightarrow> bool" where
  "awake s \<longleftrightarrow> sh_triggered s \<and> (\<forall>i. sh_pc s i = Awaiting \<longrightarrow> sh_woken s i)"

fun steps_left :: "wait_pc \<Rightarrow> nat" where
  "steps_left Enter = 2"
| "steps_left Registered = 1"
| "steps_left Awaiting = 2"
| "steps_left Rechecking = 1"
| "steps_left Returned = 0"

lemma wait_step_awake:
  assumes "wait_step i s = Some s'" "awake s"
  shows "awake s'" "steps_left (sh_pc s' i) + 1 = steps_left (sh_pc s i)" "j \<noteq> i \<Longrightarrow> sh_pc s' j = sh_pc s j"
  using assms by (auto simp: wait_step_def awake_def is_triggered_def split: wait_pc.splits if_splits)

lemma signal_step_awake:
  assumes "signal_step s a s'" "awake s" "a \<noteq> Reset"
  shows "awake s' \<and> steps_left (sh_pc s' i) + (if a = Wait i then 1 else 0) = steps_left (sh_pc s i)"
  using assms
proof (cases rule: signal_step.cases)
  case (Wait j)
  then show ?thesis using wait_step_awake [OF _ assms(2)] by (cases "j = i") auto
qed (auto simp: awake_def trigger_store_def notify_waiters_def)

lemma signal_run_awake:
  assumes "signal_run s as s'" "awake s" "Reset \<notin> set as"
  shows "awake s' \<and> steps_left (sh_pc s' i) + count_list as (Wait i) = steps_left (sh_pc s i)"
  using assms
proof (induction rule: signal_run.induct)
  case (Snoc s as s' a s'')
  then have "awake s'" "steps_left (sh_pc s' i) + count_list as (Wait i) = steps_left (sh_pc s i)" by auto
  with signal_step_awake [OF Snoc.hyps(2), of i] Snoc.prems show ?case by auto
qed simp

text \<open>
  C24: the shutdown signal reaches every task. Take any interleaving of any number of waiting tasks
  and of triggers and resets after which the flag is set and its notification is through. From then
  on, until somebody resets the flag, a task that has not returned always has a next step, and two
  steps of its own are enough for it to return, whether it was already waiting or starts to wait
  only then.
\<close>

theorem shutdown_reaches_everyone:
  assumes "signal_run shutdown_new as s" "sh_triggered s" "sh_notifying s = 0"
    and "signal_run s bs s'" "Reset \<notin> set bs"
  shows "(sh_pc s' i = Returned \<or> wait_step i s' \<noteq> None) \<and> count_list bs (Wait i) \<le> 2 \<and>
    (sh_pc s i \<noteq> Returned \<and> count_list bs (Wait i) = 2 \<longrightarrow> sh_pc s' i = Returned)"
proof -
  have "no_sleeper s" using signal_run_no_sleeper [OF assms(1)] by (simp add: no_sleeper_def shutdown_new_def)
  then have "awake s" using assms(2,3) by (simp add: no_sleeper_def awake_def)
  from signal_run_awake [OF assms(4) this assms(5), of i]
  have "awake s'" and eq: "steps_left (sh_pc s' i) + count_list bs (Wait i) = steps_left (sh_pc s i)" by auto
  have "steps_left (sh_pc s i) \<le> 2" by (cases "sh_pc s i") auto
  moreover have "steps_left (sh_pc s' i) = 0 \<Longrightarrow> sh_pc s' i = Returned" by (cases "sh_pc s' i") auto
  moreover have "sh_pc s' i = Returned \<or> wait_step i s' \<noteq> None"
    using \<open>awake s'\<close> by (cases "sh_pc s' i") (auto simp: wait_step_def awake_def)
  ultimately show ?thesis using eq by auto
qed

fun signal_exec :: "signal_action list \<Rightarrow> shutdown_state \<Rightarrow> shutdown_state option" where
  "signal_exec [] s = Some s"
| "signal_exec (Wait i # as) s = Option.bind (wait_step i s) (signal_exec as)"
| "signal_exec (Trigger # as) s = signal_exec as (trigger_store s)"
| "signal_exec (Notify # as) s = (if 0 < sh_notifying s then signal_exec as (notify_waiters s) else None)"
| "signal_exec (Reset # as) s = signal_exec as (reset s)"

lemma signal_run_trans: "signal_run s' bs s'' \<Longrightarrow> signal_run s as s' \<Longrightarrow> signal_run s (as @ bs) s''"
proof (induction rule: signal_run.induct)
  case (Snoc s' bs t a t')
  then show ?case using signal_run.Snoc [of s "as @ bs" t a t'] by simp
qed simp

lemma signal_exec_run: "signal_exec as s = Some s' \<Longrightarrow> signal_run s as s'"
proof (induction as arbitrary: s)
  case Nil
  then show ?case by (simp add: signal_run.Nil)
next
  case (Cons a as)
  obtain t where "signal_step s a t" "signal_exec as t = Some s'"
    using Cons.prems by (cases a) (auto simp: bind_eq_Some_conv split: if_splits intro: signal_step.intros)
  then have "signal_run s ([] @ [a]) t" "signal_run t as s'"
    using Cons.IH signal_run.Snoc [OF signal_run.Nil] by blast+
  then show ?case using signal_run_trans by fastforce
qed

theorem shutdown_reaches_everyone_witness:
  "\<exists>s s'. signal_run shutdown_new [Wait 0, Wait 0, Trigger, Notify] s \<and> signal_run s [Wait 0, Wait 0] s' \<and>
    sh_pc s' 0 = Returned"
proof -
  let ?s = "the (signal_exec [Wait 0, Wait 0, Trigger, Notify] shutdown_new)"
  let ?s' = "the (signal_exec [Wait 0, Wait 0] ?s)"
  have s: "signal_exec [Wait 0, Wait 0, Trigger, Notify] shutdown_new = Some ?s"
    by (simp add: shutdown_new_def wait_step_def is_triggered_def trigger_store_def)
  have s': "signal_exec [Wait 0, Wait 0] ?s = Some ?s'"
    by (simp add: shutdown_new_def wait_step_def is_triggered_def trigger_store_def notify_waiters_def)
  have "sh_triggered ?s" "sh_notifying ?s = 0" "sh_pc ?s 0 = Awaiting"
    by (simp_all add: shutdown_new_def wait_step_def is_triggered_def trigger_store_def notify_waiters_def)
  with shutdown_reaches_everyone [OF signal_exec_run [OF s] _ _ signal_exec_run [OF s'], of 0]
  have "sh_pc ?s' 0 = Returned" by simp
  then show ?thesis using signal_exec_run [OF s] signal_exec_run [OF s'] by blast
qed

text \<open>
  A reset between the notification and the woken task's second look at the flag loses the signal:
  the task goes back to sleep, with nothing left to wake it.
\<close>

lemma reset_loses_shutdown:
  "\<exists>s. signal_run shutdown_new [Wait 0, Wait 0, Trigger, Notify, Reset, Wait 0, Wait 0, Wait 0, Wait 0] s \<and>
     sh_pc s 0 = Awaiting \<and> wait_step 0 s = None \<and> sh_notifying s = 0"
proof -
  let ?as = "[Wait 0, Wait 0, Trigger, Notify, Reset, Wait 0, Wait 0, Wait 0, Wait 0]"
  let ?s = "the (signal_exec ?as shutdown_new)"
  have "signal_exec ?as shutdown_new = Some ?s"
    by (simp add: shutdown_new_def wait_step_def is_triggered_def trigger_store_def notify_waiters_def reset_def)
  then have "signal_run shutdown_new ?as ?s" by (rule signal_exec_run)
  moreover have "sh_pc ?s 0 = Awaiting \<and> wait_step 0 ?s = None \<and> sh_notifying ?s = 0"
    by (simp add: shutdown_new_def wait_step_def is_triggered_def trigger_store_def notify_waiters_def reset_def)
  ultimately show ?thesis by blast
qed

subsection \<open>Creating, starting and stopping the gateway\<close>

datatype gateway_task = Server | Metrics_Ticker | Listener_Task listener_config

record runtime_handles =
  rh_running :: bool
  rh_server :: "gateway_task option"
  rh_metrics :: "gateway_task option"
  rh_listeners :: "gateway_task list"

definition no_handles :: runtime_handles where
  "no_handles = \<lparr>rh_running = False, rh_server = None, rh_metrics = None, rh_listeners = []\<rparr>"

record default_gateway =
  gw_host :: string
  gw_port :: u16
  gw_protocols :: "protocol list"
  gw_listeners :: "listener_config list"
  gw_state :: app_state
  gw_shutdown :: bool
  gw_runtime :: runtime_handles

definition create_gateway :: "gateway_config \<Rightarrow> nat \<Rightarrow> default_gateway result" where
  "create_gateway config started_at =
     and_then (build_protocols (gc_protocols config)) (\<lambda>protocols.
       Ok \<lparr>gw_host = gc_host config, gw_port = gc_port config, gw_protocols = protocols,
           gw_listeners = gc_listeners config,
           gw_state = \<lparr>as_router = router_new (gc_routes config), as_metrics = metrics_new started_at,
             as_middleware = build_middleware_chain (gc_middleware config),
             as_config_store = acs_new config, as_client_ids = 1\<rparr>,
           gw_shutdown = False, gw_runtime = no_handles\<rparr>)"

text \<open>\<open>bind\<close> is the operating system's answer to binding the address.\<close>

definition gateway_start ::
  "(string \<Rightarrow> string + unit) \<Rightarrow> default_gateway \<Rightarrow> unit result \<times> default_gateway" where
  "gateway_start bind_addr g =
     (let runtime = gw_runtime g in
      if rh_running runtime then (Err (Unknown ''Gateway is already running''), g)
      else
        let g = g\<lparr>gw_shutdown := False\<rparr>;
            addr = gw_host g @ '':'' @ show_nat (unat (gw_port g))
        in case bind_addr addr of
             Inl e \<Rightarrow> (Err (Io e), g)
           | Inr _ \<Rightarrow>
               let runtime = runtime\<lparr>rh_metrics := Some Metrics_Ticker\<rparr>;
                   runtime = runtime\<lparr>rh_listeners := rh_listeners runtime @ map Listener_Task (gw_listeners g)\<rparr>;
                   runtime = runtime\<lparr>rh_server := Some Server\<rparr>;
                   runtime = runtime\<lparr>rh_running := True\<rparr>
               in (Ok (), g\<lparr>gw_runtime := runtime\<rparr>))"

text \<open>\<open>stop\<close>: what it joins, in order, and the gateway it leaves.\<close>

definition gateway_stop :: "default_gateway \<Rightarrow> gateway_task list \<times> default_gateway" where
  "gateway_stop g =
     (let runtime = gw_runtime g in
      if \<not> rh_running runtime then ([], g)
      else
        let joined = (case rh_server runtime of Some t \<Rightarrow> [t] | None \<Rightarrow> [])
              @ (case rh_metrics runtime of Some t \<Rightarrow> [t] | None \<Rightarrow> []) @ rh_listeners runtime
        in (joined, g\<lparr>gw_shutdown := True,
              gw_runtime := runtime\<lparr>rh_running := False, rh_server := None, rh_metrics := None,
                                    rh_listeners := []\<rparr>\<rparr>))"

definition gateway_at_rest :: "default_gateway \<Rightarrow> bool" where
  "gateway_at_rest g \<longleftrightarrow> gw_runtime g = no_handles"

text \<open>
  The lifecycle of a gateway. Starting one at rest spawns the server, the ticker and one task
  for each configured listener with the signal cleared; a second start is refused and changes
  nothing; stopping sets the signal and joins exactly the tasks that were started, after which the
  gateway is at rest and can be started again. A start whose address cannot be bound leaves it at
  rest.
\<close>

lemma gateway_lifecycle:
  assumes "gateway_at_rest g" "addr = gw_host g @ '':'' @ show_nat (unat (gw_port g))"
  shows "\<exists>g1 g2. (case bind_addr addr of
      Inl e \<Rightarrow> gateway_start bind_addr g = (Err (Io e), g1) \<and> gateway_at_rest g1
    | Inr _ \<Rightarrow> gateway_start bind_addr g = (Ok (), g1) \<and> \<not> gw_shutdown g1 \<and>
        gateway_start bind_addr g1 = (Err (Unknown ''Gateway is already running''), g1) \<and>
        gateway_stop g1 = (Server # Metrics_Ticker # map Listener_Task (gw_listeners g), g2) \<and>
        gw_shutdown g2 \<and> gateway_at_rest g2 \<and> gateway_start bind_addr g2 = (Ok (), g1))"
  using assms
  by (cases "bind_addr addr")
    (auto simp: gateway_start_def gateway_stop_def gateway_at_rest_def no_handles_def Let_def)

lemma create_gateway_state:
  assumes "create_gateway config 0 = Ok g"
  shows "gw_state g = fresh_state config \<and> gateway_at_rest g"
  using assms by (auto simp: create_gateway_def fresh_state_def gateway_at_rest_def)

end
