(* ===== verification/Concurrent_Requests.thy ===== *)
theory Concurrent_Requests
  imports Admission Lifecycle "HOL-Library.Multiset"
begin

section \<open>Concurrent requests\<close>

text \<open>
  The server runs \<open>handle_request\<close> in one task for each request, and the tasks interleave at every
  \<open>await\<close>. What a request does to the shared state falls into two parts: up to and including the
  middleware chain, whose limiter decides under its lock, and from the dispatch to the recording of
  the outcome. A request that is turned down before the chain, and a WebSocket upgrade, is one
  part. Between the two parts of a request any number of other requests may run.
\<close>

subsection \<open>The two parts of a request\<close>

datatype progress =
    Passed dispatch "string option" request
  | Turned_Away dispatch error
  | Answered http_reply "upstream_call list"

definition answer :: "handled \<Rightarrow> progress \<times> app_state" where
  "answer h = (case h of (reply, st, calls) \<Rightarrow> (Answered reply calls, st))"

definition enter_request :: "externals \<Rightarrow> moment \<Rightarrow> incoming \<Rightarrow> app_state \<Rightarrow> progress \<times> app_state" where
  "enter_request ex mo req st =
     (if path_contains_traversal (in_path req)
      then answer (finish ex (record_outcome mo (in_method req) (in_path req) None [] 400 None st) []
             (text_reply 400 ''Invalid path''))
      else case route (as_router st) (in_method req) (in_path req) of
             None \<Rightarrow>
               answer (finish ex (record_outcome mo (in_method req) (in_path req) None [] 404 None st) []
                 (text_reply 404 ''Not found''))
           | Some r \<Rightarrow>
               let d = \<lparr>d_method = in_method req, d_path = in_path req, d_route = r\<rparr>
               in case rc_transport r of
                    WebSocket cfg \<Rightarrow> answer (handle_ws_route ex mo d cfg req st)
                  | transport \<Rightarrow>
                      (case to_bytes (in_body req) MAX_REQUEST_BODY of
                         None \<Rightarrow>
                           answer (finish ex (d_record mo d (transport_target transport) 413 None st) []
                             (text_reply 413 ''Body too large''))
                       | Some body \<Rightarrow>
                           (case chain_handle_request (mo_now mo) (as_middleware st)
                                   (core_request req transport body) of
                              (Err e, mw) \<Rightarrow> (Turned_Away d e, st\<lparr>as_middleware := mw\<rparr>)
                            | (Ok core_req, mw) \<Rightarrow>
                                (Passed d (in_query req) core_req, st\<lparr>as_middleware := mw\<rparr>))))"

fun complete_request :: "externals \<Rightarrow> moment \<Rightarrow> progress \<Rightarrow> app_state \<Rightarrow> (progress \<times> app_state) option" where
  "complete_request ex mo (Passed d query core_req) st =
     (let remote_ip = (case rm_remote_addr (rq_metadata core_req) of Some a \<Rightarrow> a | None \<Rightarrow> []);
          hs = set_forwarded_for (rm_headers (rq_metadata core_req)) remote_ip
      in map_option answer
           (dispatch_transport ex mo d (rc_transport (d_route d)) query hs (rq_data core_req) st))"
| "complete_request ex mo (Turned_Away d e) st = Some (answer (refuse ex mo d e st))"
| "complete_request ex mo (Answered reply calls) st = Some (Answered reply calls, st)"

text \<open>With nothing in between, the two parts are \<open>handle_request\<close>.\<close>

lemma handle_request_parts:
  "map_option answer (handle_request ex mo req st) =
     (case enter_request ex mo req st of (p, st') \<Rightarrow> complete_request ex mo p st')"
proof (cases "path_contains_traversal (in_path req)")
  case True
  then show ?thesis by (simp add: handle_request_def enter_request_def answer_def finish_def)
next
  case False
  show ?thesis
  proof (cases "route (as_router st) (in_method req) (in_path req)")
    case None
    then show ?thesis using False by (simp add: handle_request_def enter_request_def answer_def finish_def)
  next
    case (Some r)
    have "map_option answer (admit_and_dispatch ex mo \<lparr>d_method = in_method req, d_path = in_path req, d_route = r\<rparr> req st)
        = (case enter_request ex mo req st of (p, st') \<Rightarrow> complete_request ex mo p st')"
      if "\<not> is_websocket (rc_transport r)"
      using that False Some
      by (cases "rc_transport r")
        (auto simp: enter_request_def admit_and_dispatch_def answer_def finish_def Let_def
          split: option.splits prod.splits result.splits)
    then show ?thesis using False Some handle_request_cases [OF False Some]
        handle_request_websocket [OF False Some]
      by (cases "is_websocket (rc_transport r)")
        (auto simp: is_websocket_iff enter_request_def answer_def Let_def split: prod.splits)
  qed
qed

subsection \<open>Interleavings\<close>

text \<open>
  A task is a request under way with the instant at which it went through the chain. An action lets
  a new request enter, completes one of those under way, serves a call of the admin API, or is the ticker's.
\<close>

record task =
  ta_externals :: externals
  ta_request :: incoming
  ta_entered :: instant
  ta_progress :: progress

record serving =
  se_state :: app_state
  se_tasks :: "task list"

datatype serving_action =
    Enter externals moment incoming
  | Complete nat moment
  | Admin_Call externals instant "app_state \<Rightarrow> http_reply \<times> app_state" incoming
  | Ticker u64

fun serving_step :: "serving_action \<Rightarrow> serving \<Rightarrow> serving" where
  "serving_step (Enter ex mo req) s =
     (case enter_request ex mo req (se_state s) of
        (p, st) \<Rightarrow> \<lparr>se_state = st, se_tasks = se_tasks s @
           [\<lparr>ta_externals = ex, ta_request = req, ta_entered = mo_now mo, ta_progress = p\<rparr>]\<rparr>)"
| "serving_step (Complete i mo) s =
     (if i < length (se_tasks s) then
        let t = se_tasks s ! i
        in case complete_request (ta_externals t) mo (ta_progress t) (se_state s) of
             Some (p, st) \<Rightarrow> \<lparr>se_state = st, se_tasks = (se_tasks s)[i := t\<lparr>ta_progress := p\<rparr>]\<rparr>
           | None \<Rightarrow> s
      else s)"
| "serving_step (Admin_Call ex now inner req) s =
     s\<lparr>se_state := snd (admin_middleware ex now inner req (se_state s))\<rparr>"
| "serving_step (Ticker now_secs) s =
     s\<lparr>se_state := (se_state s)\<lparr>as_metrics := tick now_secs (as_metrics (se_state s))\<rparr>\<rparr>"

definition serving_run :: "serving_action list \<Rightarrow> app_state \<Rightarrow> serving" where
  "serving_run as st = fold serving_step as \<lparr>se_state = st, se_tasks = []\<rparr>"

fun action_times :: "serving_action list \<Rightarrow> instant list" where
  "action_times [] = []"
| "action_times (Enter ex mo req # as) = mo_now mo # action_times as"
| "action_times (Admin_Call ex now inner req # as) = now # action_times as"
| "action_times (Complete i mo # as) = action_times as"
| "action_times (Ticker now_secs # as) = action_times as"

fun leaves_chain :: "serving_action \<Rightarrow> bool" where
  "leaves_chain (Admin_Call ex now inner req) = (\<forall>st. as_middleware (snd (inner st)) = as_middleware st)"
| "leaves_chain a = True"

text \<open>Who used a backend, and when it was let through; \<open>may_use\<close> counts those still under way too.\<close>

fun used_backend :: "progress \<Rightarrow> bool" where
  "used_backend (Answered reply calls) = (\<not> list_all is_ws_call calls)"
| "used_backend p = False"

fun may_use :: "progress \<Rightarrow> bool" where
  "may_use (Passed d query core_req) = True"
| "may_use p = used_backend p"

definition users :: "(progress \<Rightarrow> bool) \<Rightarrow> task list \<Rightarrow> (instant \<times> string) multiset" where
  "users P tasks = sum_list (map (\<lambda>t. if P (ta_progress t) then {#(ta_entered t, in_remote_ip (ta_request t))#} else {#}) tasks)"

lemma serving_run_snoc [simp]: "serving_run (as @ [a]) st = serving_step a (serving_run as st)"
  by (simp add: serving_run_def)

lemma serving_run_Nil [simp]: "serving_run [] st = \<lparr>se_state = st, se_tasks = []\<rparr>"
  by (simp add: serving_run_def)

lemma action_times_append [simp]: "action_times (as @ bs) = action_times as @ action_times bs"
  by (induction as rule: action_times.induct) auto

lemma users_append [simp]:
  "users P (ts @ [t]) = users P ts + (if P (ta_progress t) then {#(ta_entered t, in_remote_ip (ta_request t))#} else {#})"
  by (simp add: users_def)

lemma users_Nil [simp]: "users P [] = {#}"
  by (simp add: users_def)

lemma sum_list_mset_mono: "(\<And>x. f x \<subseteq># g x) \<Longrightarrow> sum_list (map f xs) \<subseteq># sum_list (map g xs)"
  by (induction xs) (auto intro: subset_mset.add_mono)

lemma users_mono: "(\<And>p. P p \<Longrightarrow> Q p) \<Longrightarrow> users P ts \<subseteq># users Q ts"
  unfolding users_def by (rule sum_list_mset_mono) auto

lemma mset_cancel_mono:
  assumes "A + F = B + G" "G \<subseteq># F"
  shows "A \<subseteq># (B :: 'a multiset)"
proof -
  obtain D where "F = D + G" using assms(2) by (metis subset_mset.diff_add)
  then have "A + D + G = B + G" using assms(1) by (simp only: add.assoc)
  then have "A + D = B" by (simp only: add_right_cancel)
  then show ?thesis by (simp only: mset_subset_eq_add_left flip: \<open>A + D = B\<close>)
qed

lemma users_update:
  assumes "i < length ts" "P p \<Longrightarrow> P (ta_progress (ts ! i))"
  shows "users P (ts[i := (ts ! i)\<lparr>ta_progress := p\<rparr>]) \<subseteq># users P ts"
proof -
  let ?f = "\<lambda>t. if P (ta_progress t) then {#(ta_entered t, in_remote_ip (ta_request t))#} else {#}"
  have "users P (ts[i := (ts ! i)\<lparr>ta_progress := p\<rparr>]) + ?f (ts ! i) = users P ts + ?f ((ts ! i)\<lparr>ta_progress := p\<rparr>)"
    unfolding users_def using assms(1) by (rule sum_list_map_update)
  moreover have "?f ((ts ! i)\<lparr>ta_progress := p\<rparr>) \<subseteq># ?f (ts ! i)" using assms(2) by simp
  ultimately show ?thesis by (rule mset_cancel_mono)
qed

subsection \<open>The parts and the limiter\<close>

text \<open>A request is answered and recorded before the chain, or the chain decides.\<close>

lemma enter_cases:
  assumes enter: "enter_request ex mo req st = (p, st')"
  obtains (recorded) "records st st'" "\<not> may_use p"
    | (chain) r :: route_config and body res mw where
      "chain_handle_request (mo_now mo) (as_middleware st) (core_request req (rc_transport r) body) = (res, mw)"
      "st' = st\<lparr>as_middleware := mw\<rparr>" "may_use p \<Longrightarrow> is_ok res"
proof (cases "path_contains_traversal (in_path req) \<or> route (as_router st) (in_method req) (in_path req) = None")
  case True
  then show thesis using enter that(1)
    by (auto simp: enter_request_def answer_def finish_def split: if_splits)
next
  case False
  then obtain r where r: "\<not> path_contains_traversal (in_path req)"
    "route (as_router st) (in_method req) (in_path req) = Some r" by auto
  show thesis
  proof (cases "is_websocket (rc_transport r) \<or> to_bytes (in_body req) MAX_REQUEST_BODY = None")
    case True
    then show thesis using enter that(1) r
      by (cases "rc_transport r")
        (auto simp: enter_request_def answer_def finish_def handle_ws_route_def Let_def split: option.splits)
  next
    case False
    then obtain body where body: "to_bytes (in_body req) MAX_REQUEST_BODY = Some body" by auto
    obtain res mw where run:
      "chain_handle_request (mo_now mo) (as_middleware st) (core_request req (rc_transport r) body) = (res, mw)"
      by force
    show thesis using enter False r body run
      by (intro that(2) [OF run]; cases "rc_transport r"; cases res) (auto simp: enter_request_def Let_def)
  qed
qed

lemma enter_one_call:
  assumes chain: "as_middleware st = chain_with config limits" and on: "rl_enabled (ms_rate_limit config)"
    and enter: "enter_request ex mo req st = (p, st')"
  shows "one_call config limits (mo_now mo) (in_remote_ip req) (as_middleware st') (may_use p)"
  using enter
proof (cases rule: enter_cases)
  case recorded
  then show ?thesis using chain one_call_idle by (simp add: records_def)
next
  case (chain r body res mw)
  have "one_call config limits (mo_now mo) (in_remote_ip req) mw (is_ok res)"
    using chain(1) assms(1) by (intro one_call_chain [OF on]) (simp_all add: core_request_def client_key_def)
  then show ?thesis using chain by (auto intro: one_call_weaken)
qed

lemma complete_chain:
  assumes "complete_request ex mo p st = Some (p', st')"
  shows "as_middleware st' = as_middleware st \<and> (may_use p' \<longrightarrow> may_use p)"
proof (cases p)
  case (Passed d query core_req)
  then obtain hs reply calls where
    "dispatch_transport ex mo d (rc_transport (d_route d)) query hs (rq_data core_req) st = Some (reply, st', calls)"
    using assms by (auto simp: answer_def Let_def)
  then show ?thesis using dispatch_chain Passed by simp
next
  case (Turned_Away d e)
  obtain reply st1 calls where r: "refuse ex mo d e st = (reply, st1, calls)" by (metis prod_cases3)
  then show ?thesis using assms Turned_Away refuse_calls [OF r] refuse_chain [of ex mo d e st]
    by (auto simp: answer_def)
next
  case (Answered reply calls)
  then show ?thesis using assms by auto
qed

text \<open>
  What holds at every moment: the chain is that of the configuration after some run of the limiter
  on events at the instants of the actions, and whoever may use a backend was let through in it.
\<close>

definition accounted :: "middleware_section_config \<Rightarrow> instant list \<Rightarrow> serving \<Rightarrow> bool" where
  "accounted config instants s \<longleftrightarrow>
     (\<exists>evs. subseq (map fst evs) instants \<and>
        (case limiter_run (rl_requests_per_window (ms_rate_limit config))
            (unat (rl_window_secs (ms_rate_limit config)) * NANOS_PER_SEC) [] evs of
         (let_through, limits) \<Rightarrow>
           as_middleware (se_state s) = chain_with config limits \<and> users may_use (se_tasks s) \<subseteq># mset let_through))"

lemma accounted_one_call:
  assumes "accounted config instants s"
    and call: "\<And>limits. as_middleware (se_state s) = chain_with config limits \<Longrightarrow>
      one_call config limits now ip (as_middleware (se_state s')) passed"
    and more: "users may_use (se_tasks s') \<subseteq># users may_use (se_tasks s) + (if passed then {#(now, ip)#} else {#})"
  shows "accounted config (instants @ [now]) s'"
proof -
  let ?run = "limiter_run (rl_requests_per_window (ms_rate_limit config))
    (unat (rl_window_secs (ms_rate_limit config)) * NANOS_PER_SEC)"
  obtain evs h limits where evs: "subseq (map fst evs) instants" "?run [] evs = (h, limits)"
    "as_middleware (se_state s) = chain_with config limits" "users may_use (se_tasks s) \<subseteq># mset h"
    using assms(1) by (auto simp: accounted_def)
  obtain evs1 where e: "evs1 \<in> {[], [(now, ip)]}" "as_middleware (se_state s') = chain_with config (snd (?run limits evs1))"
    "passed \<longrightarrow> fst (?run limits evs1) = [(now, ip)]"
    using call [OF evs(3)] unfolding one_call_def Let_def by blast
  obtain h1 limits1 where run1: "?run limits evs1 = (h1, limits1)" by force
  note evs1 = e(1) run1 e(2,3) [unfolded run1 fst_conv snd_conv]
  have run: "?run [] (evs @ evs1) = (h @ h1, limits1)" using evs(2) evs1(2) by (simp add: limiter_run_append)
  have "(if passed then {#(now, ip)#} else {#}) \<subseteq># mset h1" using evs1(4) by simp
  with evs(4) have "users may_use (se_tasks s) + (if passed then {#(now, ip)#} else {#}) \<subseteq># mset h + mset h1"
    by (rule subset_mset.add_mono)
  with more have "users may_use (se_tasks s') \<subseteq># mset (h @ h1)"
    unfolding mset_append by (rule subset_mset.order_trans)
  moreover have "subseq (map fst (evs @ evs1)) (instants @ [now])"
    using evs(1) evs1(1) by (auto intro: list_emb_append_mono list_emb_append2)
  ultimately show ?thesis using run evs1(3) unfolding accounted_def
    by (intro exI [of _ "evs @ evs1"]) simp
qed

lemma serving_accounted:
  assumes "as_middleware st = chain_with config []" "rl_enabled (ms_rate_limit config)" "list_all leaves_chain as"
  shows "accounted config (action_times as) (serving_run as st)"
  using assms(3)
proof (induction as rule: rev_induct)
  case Nil
  show ?case using assms(1) unfolding accounted_def by (intro exI [of _ "[]"]) simp
next
  case (snoc a as)
  let ?s = "serving_run as st"
  have acc: "accounted config (action_times as) ?s" using snoc by simp
  show ?case
  proof (cases a)
    case (Enter ex mo req)
    obtain p st' where enter: "enter_request ex mo req (se_state ?s) = (p, st')" by force
    have "accounted config (action_times as @ [mo_now mo]) (serving_step a ?s)"
      using enter_one_call [OF _ assms(2) enter] Enter enter
      by (intro accounted_one_call [OF acc, where passed = "may_use p" and ip = "in_remote_ip req"]) simp_all
    then show ?thesis using Enter by simp
  next
    case (Admin_Call ex now inner req)
    have "accounted config (action_times as @ [now]) (serving_step a ?s)"
      using admin_one_call [OF _ assms(2), of "se_state ?s"] snoc.prems Admin_Call
      by (intro accounted_one_call [OF acc, where passed = False and ip = "in_remote_ip req"]) simp_all
    then show ?thesis using Admin_Call by simp
  next
    case (Complete i mo)
    show ?thesis
    proof (cases "i < length (se_tasks ?s) \<and>
        complete_request (ta_externals (se_tasks ?s ! i)) mo (ta_progress (se_tasks ?s ! i)) (se_state ?s) \<noteq> None")
      case True
      then obtain p st' where c: "complete_request (ta_externals (se_tasks ?s ! i)) mo
          (ta_progress (se_tasks ?s ! i)) (se_state ?s) = Some (p, st')" and i: "i < length (se_tasks ?s)" by auto
      have "users may_use ((se_tasks ?s)[i := (se_tasks ?s ! i)\<lparr>ta_progress := p\<rparr>]) \<subseteq># users may_use (se_tasks ?s)"
        using complete_chain [OF c] i by (intro users_update) simp_all
      then show ?thesis using acc complete_chain [OF c] Complete c i
        by (auto simp: accounted_def Let_def intro: subset_mset.order_trans)
    next
      case False
      then show ?thesis using acc Complete by (auto simp: Let_def split: option.splits)
    qed
  next
    case (Ticker now_secs)
    then show ?thesis using acc by (simp add: accounted_def)
  qed
qed

text \<open>
  C3: the rate limit holds under concurrency. Take a gateway created from a configuration with rate limiting
  enabled, and let any number of requests and calls of the admin API interleave with the ticker, each request waiting
  as long as it likes between the middleware chain and its dispatch. In every interval as long as the
  window, the requests of one address that were let through then and used a backend, other than over
  WebSocket, are at most the configured number.
\<close>

theorem concurrent_traffic_bounded:
  assumes "create_gateway config started_at = Ok g" "limit = ms_rate_limit (gc_middleware config)"
    and "rl_enabled limit" "sorted (action_times as)" "list_all leaves_chain as"
    and "window = unat (rl_window_secs limit) * NANOS_PER_SEC"
  shows "size {#(t, k) \<in># users used_backend (se_tasks (serving_run as (gw_state g))). k = ip \<and> a \<le> t \<and> t \<le> a + window#}
    \<le> unat (rl_requests_per_window limit)"
proof -
  let ?s = "serving_run as (gw_state g)"
  have "as_middleware (gw_state g) = chain_with (gc_middleware config) []"
    using assms(1) by (auto simp: create_gateway_def build_middleware_chain_with)
  then have "accounted (gc_middleware config) (action_times as) ?s"
    using assms(2,3,5) by (intro serving_accounted) simp_all
  then obtain evs h limits where evs: "subseq (map fst evs) (action_times as)"
    "limiter_run (rl_requests_per_window limit) window [] evs = (h, limits)" "users may_use (se_tasks ?s) \<subseteq># mset h"
    using assms(2,6) by (auto simp: accounted_def)
  have "sorted (map fst evs)" using evs(1) assms(4) by (rule sorted_subseq)
  then have bound: "length (in_window h ip a window) \<le> unat (rl_requests_per_window limit)"
    using limiter_run_window [of evs "rl_requests_per_window limit" window ip a] evs(2) by simp
  have "may_use p" if "used_backend p" for p using that by (cases p) simp_all
  then have "users used_backend (se_tasks ?s) \<subseteq># users may_use (se_tasks ?s)" by (rule users_mono)
  then have "users used_backend (se_tasks ?s) \<subseteq># mset h" using evs(3) by (rule subset_mset.order_trans)
  then have "size (filter_mset (\<lambda>(t, k). k = ip \<and> a \<le> t \<and> t \<le> a + window) (users used_backend (se_tasks ?s)))
      \<le> size (mset (in_window h ip a window))"
    unfolding in_window_def mset_filter by (intro size_mset_mono multiset_filter_mono)
  then show ?thesis using bound by simp
qed

text \<open>Two requests of one address enter before either completes; the limit of one lets only the first through.\<close>

definition limited_config :: gateway_config where
  "limited_config = proxy_config\<lparr>gc_middleware := default_middleware\<lparr>ms_rate_limit :=
     \<lparr>rl_enabled = True, rl_requests_per_window = 1, rl_window_secs = 60\<rparr>\<rparr>\<rparr>"

theorem concurrent_traffic_bounded_witness:
  "\<exists>g. create_gateway limited_config 0 = Ok g \<and>
     size {#(t, k) \<in># users used_backend (se_tasks (serving_run
       [Enter refusing noon (get_request ''/api''), Enter refusing (noon\<lparr>mo_now := 9\<rparr>) (get_request ''/api''),
        Admin_Call refusing 9 (\<lambda>st. (status_reply 200, st)) (get_request ''/admin/api/health''),
        Complete 1 noon, Complete 0 noon] (gw_state g))).
       k = ''10.0.0.1'' \<and> 0 \<le> t \<and> t \<le> 0 + 60 * NANOS_PER_SEC#} \<le> 1"
proof -
  obtain g where g: "create_gateway limited_config 0 = Ok g"
    by (simp add: create_gateway_def limited_config_def proxy_config_def minimal_config_def build_protocols_def)
  have limit: "ms_rate_limit (gc_middleware limited_config)
      = \<lparr>rl_enabled = True, rl_requests_per_window = 1, rl_window_secs = 60\<rparr>"
    by (simp add: limited_config_def)
  show ?thesis
    using concurrent_traffic_bounded [OF g limit [symmetric], of
        "[Enter refusing noon (get_request ''/api''), Enter refusing (noon\<lparr>mo_now := 9\<rparr>) (get_request ''/api''),
          Admin_Call refusing 9 (\<lambda>st. (status_reply 200, st)) (get_request ''/admin/api/health''),
          Complete 1 noon, Complete 0 noon]" _ "''10.0.0.1''" 0]
      g by (auto simp: noon_def)
qed

end
