(* ===== verification/State_Invariant.thy ===== *)
theory State_Invariant
  imports Concurrent_Requests
begin

section \<open>The well-formedness of the shared state\<close>

text \<open>
  What the fields of the shared state may hold: the router is the one built from the configuration, the
  middleware chain is the configured one with one entry for each client it tracks, the buffers of the
  metrics are within their capacities with one entry for each key of their maps, and both
  configurations of the admin API are valid.
\<close>

definition limits_ok :: "limits \<Rightarrow> bool" where
  "limits_ok limits \<longleftrightarrow> distinct (map fst limits)"

definition metrics_ok :: "metrics_store \<Rightarrow> bool" where
  "metrics_ok m \<longleftrightarrow> length (st_request_log m) \<le> RING_BUFFER_CAP \<and>
     length (st_recent_latencies m) \<le> LATENCY_BUFFER_CAP \<and> length (st_time_buckets m) \<le> BUCKET_COUNT \<and>
     distinct (map fst (st_route_stats m)) \<and> distinct (map fst (st_status_code_counts m))"

definition state_ok :: "gateway_config \<Rightarrow> app_state \<Rightarrow> bool" where
  "state_ok config st \<longleftrightarrow> as_router st = router_new (gc_routes config) \<and>
     (\<exists>limits. as_middleware st = chain_with (gc_middleware config) limits \<and> limits_ok limits) \<and>
     metrics_ok (as_metrics st) \<and> store_valid (as_config_store st)"

subsection \<open>The metrics\<close>

lemma pop_excess_length: "length (pop_excess bs) \<le> BUCKET_COUNT"
  by (induction bs) (auto simp: BUCKET_COUNT_def)

lemma update_buckets_length:
  "length bs \<le> BUCKET_COUNT \<Longrightarrow> length (update_buckets t err lat bs) \<le> BUCKET_COUNT"
  using pop_excess_length by (auto simp: update_buckets_def Let_def BUCKET_COUNT_def)

lemma metrics_ok_record: "metrics_ok m \<Longrightarrow> metrics_ok (record_request t x m)"
  by (auto simp: metrics_ok_def push_log_def push_latency_def update_buckets_length count_status_def
      update_route_stats_def Let_def distinct_update RING_BUFFER_CAP_def LATENCY_BUFFER_CAP_def split: option.splits)

lemma metrics_ok_tick: "metrics_ok m \<Longrightarrow> metrics_ok (tick t m)"
  using pop_excess_length by (auto simp: metrics_ok_def tick_def Let_def)

lemma metrics_ok_new: "metrics_ok (metrics_new t)"
  by (simp add: metrics_ok_def)

subsection \<open>The chain\<close>

lemma limits_ok_call: "limits_ok limits \<Longrightarrow> limits_ok (snd (is_rate_limited limits now key limit window))"
  by (simp add: limits_ok_def is_rate_limited_eq Let_def distinct_update evict_distinct)

lemma chain_kept:
  assumes "limits_ok limits" "chain_handle_request now (chain_with config limits) r = (res, mw)"
  shows "\<exists>limits'. mw = chain_with config limits' \<and> limits_ok limits'"
proof -
  have "limits_ok (snd (limiter_verdict config limits now r))"
    using assms(1) limits_ok_call by (simp add: limiter_verdict_def)
  then show ?thesis using assms by (auto simp: chain_with_cases split: if_splits prod.splits)
qed

subsection \<open>What a request changes\<close>

lemma state_ok_records: "state_ok config st \<Longrightarrow> records st st' \<Longrightarrow> state_ok config st'"
  by (auto simp: state_ok_def records_def metrics_ok_record)

lemma complete_records:
  assumes "complete_request ex mo p st = Some (p', st')"
  shows "st' = st \<or> records st st'"
proof (cases p)
  case (Passed d query core_req)
  then obtain hs reply calls where
    "dispatch_transport ex mo d (rc_transport (d_route d)) query hs (rq_data core_req) st = Some (reply, st', calls)"
    using assms by (auto simp: answer_def Let_def)
  then show ?thesis using dispatch_records by blast
next
  case (Turned_Away d e)
  then show ?thesis using assms refuse_records [of st ex mo d e] by (auto simp: answer_def split: prod.splits)
next
  case (Answered reply calls)
  then show ?thesis using assms by auto
qed

lemma enter_ok:
  assumes ok: "state_ok config st" and enter: "enter_request ex mo req st = (p, st')"
  shows "state_ok config st'"
proof -
  obtain limits where limits: "as_middleware st = chain_with (gc_middleware config) limits" "limits_ok limits"
    using ok by (auto simp: state_ok_def)
  show ?thesis using enter
  proof (cases rule: enter_cases)
    case recorded
    then show ?thesis using ok state_ok_records by blast
  next
    case (chain r body res mw)
    then show ?thesis using ok chain_kept [OF limits(2)] limits(1) by (auto simp: state_ok_def)
  qed
qed

lemma admin_ok:
  assumes "state_ok config st" "\<And>st. state_ok config st \<Longrightarrow> state_ok config (snd (inner st))"
  shows "state_ok config (snd (admin_middleware ex now inner req st))"
proof -
  obtain limits where limits: "as_middleware st = chain_with (gc_middleware config) limits" "limits_ok limits"
    using assms(1) by (auto simp: state_ok_def)
  obtain res mw where run: "chain_handle_request now (as_middleware st) (admin_core_request req) = (res, mw)" by force
  have "state_ok config (st\<lparr>as_middleware := mw\<rparr>)"
    using assms(1) chain_kept [OF limits(2)] run limits(1) by (auto simp: state_ok_def)
  then show ?thesis using assms(2) [of "st\<lparr>as_middleware := mw\<rparr>"] run
    by (auto simp: admin_middleware_def Let_def split: result.splits error.splits prod.splits)
qed

subsection \<open>The invariant\<close>

fun keeps_ok :: "gateway_config \<Rightarrow> serving_action \<Rightarrow> bool" where
  "keeps_ok config (Admin_Call ex now inner req) = (\<forall>st. state_ok config st \<longrightarrow> state_ok config (snd (inner st)))"
| "keeps_ok config a = True"

text \<open>The two handlers of the admin API that change the state, saving and activating a draft, are such calls.\<close>

lemma admin_handlers_keep:
  "keeps_ok config (Admin_Call ex now (\<lambda>st. (reply, st\<lparr>as_config_store := snd (admin_save_draft_config c (as_config_store st))\<rparr>)) req)"
  "keeps_ok config (Admin_Call ex now (\<lambda>st. (reply, st\<lparr>as_config_store := snd (activate_draft (as_config_store st))\<rparr>)) req)"
  by (auto simp: state_ok_def activate_draft_def intro: save_draft_valid activate_valid)

lemma created_ok:
  "validate config = Ok () \<Longrightarrow> create_gateway config started_at = Ok g \<Longrightarrow> state_ok config (gw_state g)"
  by (auto simp: create_gateway_def state_ok_def limits_ok_def metrics_ok_new build_middleware_chain_with
      store_valid_def acs_new_def validate_iff)

text \<open>
  C4: the shared state stays well formed. Starting from a valid configuration, under every interleaving of
  requests, calls of the admin API and the ticker: the router is the one built from the configuration, the chain
  the configured one, the log, the latencies and the time buckets stay within 10,000, 10,000 and 60
  entries, no client, route or status code has two entries, and the configurations are valid.
\<close>

theorem serving_state_ok:
  assumes "validate config = Ok ()" "create_gateway config started_at = Ok g" "list_all (keeps_ok config) as"
  shows "state_ok config (se_state (serving_run as (gw_state g)))"
  using assms(3)
proof (induction as rule: rev_induct)
  case Nil
  show ?case using created_ok [OF assms(1,2)] by simp
next
  case (snoc a as)
  let ?s = "serving_run as (gw_state g)"
  have ok: "state_ok config (se_state ?s)" using snoc by simp
  show ?case
  proof (cases a)
    case (Enter ex mo req)
    then show ?thesis using enter_ok [OF ok] by (auto split: prod.splits)
  next
    case (Complete i mo)
    then show ?thesis using ok complete_records state_ok_records
      by (auto simp: Let_def split: option.splits) blast
  next
    case (Admin_Call ex now inner req)
    then show ?thesis using admin_ok [OF ok] snoc.prems by simp
  next
    case (Ticker now_secs)
    then show ?thesis using ok by (simp add: state_ok_def metrics_ok_tick)
  qed
qed

lemma limited_config_valid: "validate limited_config = Ok ()"
  unfolding validate_iff
  by (simp add: well_formed_def well_formed_route_def limited_config_def proxy_config_def minimal_config_def
      http_route_def url_with_def trim_is_empty.simps byte_of_def word_pos_iff)

theorem serving_state_ok_witness:
  "\<exists>g. create_gateway limited_config 0 = Ok g \<and> state_ok limited_config (se_state (serving_run
     [Enter refusing noon (get_request ''/api''),
      Admin_Call refusing 9 (\<lambda>st. (status_reply 200, st\<lparr>as_config_store := snd (activate_draft (as_config_store st))\<rparr>))
        (get_request ''/admin/api/config/activate''), Complete 0 noon] (gw_state g)))"
proof -
  obtain g where g: "create_gateway limited_config 0 = Ok g"
    by (simp add: create_gateway_def limited_config_def proxy_config_def minimal_config_def build_protocols_def)
  from serving_state_ok [OF limited_config_valid g] g show ?thesis
    using admin_handlers_keep(2) [of limited_config] by fastforce
qed

end
