(* ===== verification/Live_Events.thy ===== *)
theory Live_Events
  imports Admin "HOL-Library.Sublist"
begin

section \<open>The live event stream\<close>

text \<open>
  \<open>MetricsStore::subscribe\<close> and \<open>admin_events\<close> of \<open>src/admin/handlers.rs\<close>: the dashboard subscribes to the
  entries recorded from then on and gets them as server-sent events. The broadcast channel is tokio's:
  a subscriber reads the entries in the order in which they were sent, and one that falls behind the
  channel's capacity is told how many it missed. The handler drops these notices. What the subscriber reads
  is a parameter, with \<open>delivers\<close> as the channel's promise.
\<close>

datatype received = Received request_log_entry | Lagged nat

text \<open>A subscription is the position in the sequence of all entries sent, from which on it is read.\<close>

definition subscribe :: "metrics_store \<Rightarrow> nat" where
  "subscribe m = length (st_events m)"

definition admin_events :: "(request_log_entry \<Rightarrow> string option) \<Rightarrow> received list \<Rightarrow> string list" where
  "admin_events to_json items =
     List.map_filter (\<lambda>result. Option.bind (case result of Received entry \<Rightarrow> Some entry | Lagged _ \<Rightarrow> None) to_json) items"

subsection \<open>What the channel promises\<close>

fun delivers :: "request_log_entry list \<Rightarrow> received list \<Rightarrow> bool" where
  "delivers sent [] = True"
| "delivers sent (Received x # items) = (case sent of e # sent' \<Rightarrow> x = e \<and> delivers sent' items | [] \<Rightarrow> False)"
| "delivers sent (Lagged n # items) = (0 < n \<and> n \<le> length sent \<and> delivers (drop n sent) items)"

fun missed :: "received list \<Rightarrow> nat" where
  "missed [] = 0"
| "missed (Received x # items) = missed items"
| "missed (Lagged n # items) = n + missed items"

fun read_entries :: "received list \<Rightarrow> request_log_entry list" where
  "read_entries [] = []"
| "read_entries (Received x # items) = x # read_entries items"
| "read_entries (Lagged n # items) = read_entries items"

lemma subseq_drop: "subseq xs (drop n ys) \<Longrightarrow> subseq xs ys"
  by (rule subseq_order.order_trans [OF _ suffix_imp_subseq [OF suffix_drop]])

lemma delivers_subseq:
  "delivers sent items \<Longrightarrow> subseq (read_entries items) sent \<and> length (read_entries items) + missed items \<le> length sent"
proof (induction sent items rule: delivers.induct)
  case (3 sent n items)
  then have "subseq (read_entries items) (drop n sent)" "length (read_entries items) + missed items \<le> length sent - n"
    "n \<le> length sent" by simp_all
  then show ?case using subseq_drop by (auto simp del: length_drop)
qed (auto split: list.splits)

lemma delivers_complete:
  "delivers sent items \<Longrightarrow> missed items = 0 \<Longrightarrow> read_entries items = take (length items) sent"
  by (induction sent items rule: delivers.induct) (auto split: list.splits)

lemma admin_events_eq: "admin_events (Some \<circ> show_entry) items = map show_entry (read_entries items)"
  by (induction items rule: read_entries.induct) (simp_all add: admin_events_def List.map_filter_def)

subsection \<open>What a dashboard shows\<close>

lemma metrics_run_events:
  "st_events (metrics_run ops m) = st_events m @ entries_from (st_next_id m) (recorded ops) \<and>
   st_next_id (metrics_run ops m) = st_next_id m + of_nat (length (recorded ops))"
proof (induction ops rule: rev_induct)
  case (snoc op ops)
  then show ?case by (cases op) (simp_all add: algebra_simps)
qed simp

text \<open>
  C38: a dashboard shows, in order and each at most once, requests recorded after it subscribed, numbered as
  in the log. Those it shows and those it was told it missed are no more than were recorded, and if it
  missed none it shows the first of them without a gap.
\<close>

theorem events_shown:
  assumes "delivers (drop (subscribe m) (st_events (metrics_run ops m))) items"
  shows "\<exists>shown. subseq shown (entries_from (st_next_id m) (recorded ops)) \<and>
    admin_events (Some \<circ> show_entry) items = map show_entry shown \<and>
    length shown + missed items \<le> length (recorded ops) \<and>
    (missed items = 0 \<longrightarrow> shown = take (length items) (entries_from (st_next_id m) (recorded ops)))"
proof -
  have d: "delivers (entries_from (st_next_id m) (recorded ops)) items"
    using assms by (simp add: subscribe_def metrics_run_events)
  show ?thesis
    using delivers_subseq [OF d] delivers_complete [OF d]
    by (intro exI [of _ "read_entries items"]) (simp add: admin_events_eq)
qed

text \<open>Three requests after the subscription, the first of which the dashboard missed.\<close>

definition probe :: "u16 \<Rightarrow> metrics_op" where
  "probe status = Record 5000 \<lparr>me_method = ''GET'', me_path = ''/a'', me_matched_route = None,
     me_upstream_target = [], me_status_code = status, me_latency_ms = 1, me_error = None\<rparr>"

theorem events_shown_witness:
  "\<exists>shown items. items = Lagged 1 # map Received (drop 1 (st_events (metrics_run [probe 404, probe 400, probe 405] (metrics_new 0)))) \<and>
    subseq shown (entries_from (st_next_id (metrics_new 0)) (recorded [probe 404, probe 400, probe 405])) \<and>
    admin_events (Some \<circ> le_path) items = map le_path shown \<and>
    length shown + missed items \<le> length (recorded [probe 404, probe 400, probe 405])"
proof -
  let ?ops = "[probe 404, probe 400, probe 405]"
  let ?items = "Lagged 1 # map Received (drop 1 (st_events (metrics_run ?ops (metrics_new 0))))"
  have "delivers (drop (subscribe (metrics_new 0)) (st_events (metrics_run ?ops (metrics_new 0)))) ?items"
    by (simp add: subscribe_def metrics_run_events probe_def)
  from events_shown [OF this, of le_path] show ?thesis by blast
qed

end
