(* ===== verification/Gateway_App.thy ===== *)
theory Gateway_App
  imports State_Invariant Live_Events
begin

section \<open>The application: one entry for all requests\<close>

text \<open>
  The router that \<open>DefaultGateway::start\<close> in \<open>src/core/gateway.rs\<close> hands to the server: the admin API behind
  \<open>admin_middleware\<close>, every other path to \<open>handle_request\<close>, and a limit on the size of the body
  in front of both. Matching of paths and methods, extraction of JSON and query parameters and conversion to a
  response are axum's and are a parameter, \<open>framework\<close>, with what its documentation says of matching as \<open>documented\<close>.
  The tracing layer only logs.
\<close>

datatype admin_answer =
    Page
  | Health_Answer health_response
  | Metrics_Answer metrics_summary
  | Routes_Answer "route_info list"
  | Recent_Answer "request_log_entry list"
  | Config_Answer config_snapshot
  | Schema_Answer config_ui_schema
  | Validation_Answer config_validation_response
  | Draft_Answer config_draft_response
  | Activation_Answer config_activate_response
  | Event_Stream nat

record framework =
  fw_too_large :: "nat \<Rightarrow> incoming \<Rightarrow> http_reply option"
  fw_find :: "string list \<Rightarrow> string \<Rightarrow> string option"
  fw_no_route :: http_reply
  fw_accepts :: "http_verb \<Rightarrow> string \<Rightarrow> bool"
  fw_not_allowed :: http_reply
  fw_json :: "incoming \<Rightarrow> http_reply + gateway_config"
  fw_query :: "string option \<Rightarrow> http_reply + nat option"
  fw_response :: "admin_answer \<Rightarrow> http_reply"
  fw_version :: string

definition documented :: "framework \<Rightarrow> bool" where
  "documented fw \<longleftrightarrow>
     (\<forall>patterns path p. fw_find fw patterns path = Some p \<longrightarrow> p \<in> set patterns \<and> (p = path \<or> CHR ''{'' \<in> set p)) \<and>
     (\<forall>patterns path. path \<in> set patterns \<longrightarrow> CHR ''{'' \<notin> set path \<longrightarrow> fw_find fw patterns path = Some path) \<and>
     (\<forall>m. (fw_accepts fw POST m \<longleftrightarrow> m = ''POST'') \<and> (fw_accepts fw PUT m \<longleftrightarrow> m = ''PUT'') \<and>
        (fw_accepts fw GET m \<longleftrightarrow> m = ''GET'' \<or> m = ''HEAD''))"

lemma documented_methods:
  "documented fw \<Longrightarrow> (fw_accepts fw POST m \<longleftrightarrow> m = ''POST'') \<and> (fw_accepts fw PUT m \<longleftrightarrow> m = ''PUT'')"
  by (simp add: documented_def)

lemma documented_match:
  "documented fw \<Longrightarrow> fw_find fw patterns path = Some p \<Longrightarrow> p = path \<or> CHR ''{'' \<in> set p"
  by (simp add: documented_def)

lemma documented_literal:
  "documented fw \<Longrightarrow> path \<in> set patterns \<Longrightarrow> CHR ''{'' \<notin> set path \<Longrightarrow> fw_find fw patterns path = Some path"
  by (simp add: documented_def)

subsection \<open>The admin router with its handlers\<close>

fun admin_handler ::
  "framework \<Rightarrow> moment \<Rightarrow> admin_endpoint \<Rightarrow> incoming \<Rightarrow> app_state \<Rightarrow> http_reply \<times> app_state" where
  "admin_handler fw mo Index req st = (fw_response fw Page, st)"
| "admin_handler fw mo Health req st =
     (fw_response fw (Health_Answer (admin_health (mo_now mo) (fw_version fw) (as_metrics st) (as_config_store st))), st)"
| "admin_handler fw mo Metrics_Summary req st =
     (fw_response fw (Metrics_Answer (admin_metrics (mo_timestamp_ms mo div 1000) (mo_now mo) (as_metrics st))), st)"
| "admin_handler fw mo Routes req st =
     (fw_response fw (Routes_Answer (admin_routes (as_metrics st) (as_config_store st))), st)"
| "admin_handler fw mo Recent req st =
     (case fw_query fw (in_query req) of
        Inl rejection \<Rightarrow> (rejection, st)
      | Inr n \<Rightarrow> (fw_response fw (Recent_Answer (admin_recent_requests n (as_metrics st))), st))"
| "admin_handler fw mo Config_Show req st =
     (fw_response fw (Config_Answer (admin_config (as_config_store st))), st)"
| "admin_handler fw mo Config_Schema req st = (fw_response fw (Schema_Answer admin_config_schema), st)"
| "admin_handler fw mo Config_Validate req st =
     (case fw_json fw req of
        Inl rejection \<Rightarrow> (rejection, st)
      | Inr config \<Rightarrow> (fw_response fw (Validation_Answer (admin_validate_config config)), st))"
| "admin_handler fw mo Config_Draft req st =
     (case fw_json fw req of
        Inl rejection \<Rightarrow> (rejection, st)
      | Inr config \<Rightarrow>
          (case admin_save_draft_config config (as_config_store st) of
             (resp, store) \<Rightarrow> (fw_response fw (Draft_Answer resp), st\<lparr>as_config_store := store\<rparr>)))"
| "admin_handler fw mo Config_Activate req st =
     (case admin_activate_draft_config (as_config_store st) of
        (resp, store) \<Rightarrow> (fw_response fw (Activation_Answer resp), st\<lparr>as_config_store := store\<rparr>))"
| "admin_handler fw mo Events req st = (fw_response fw (Event_Stream (subscribe (as_metrics st))), st)"

definition admin_router :: "framework \<Rightarrow> moment \<Rightarrow> http_verb \<times> admin_endpoint \<Rightarrow> incoming \<Rightarrow> app_state \<Rightarrow> http_reply \<times> app_state" where
  "admin_router fw mo target req st =
     (case target of (verb, endpoint) \<Rightarrow>
        if fw_accepts fw verb (in_method req) then admin_handler fw mo endpoint req st else (fw_not_allowed fw, st))"

subsection \<open>The application\<close>

definition app_patterns :: "string list" where
  "app_patterns = map fst build_admin_router @ [''/{*path}'', ''/'']"

definition app :: "framework \<Rightarrow> externals \<Rightarrow> moment \<Rightarrow> incoming \<Rightarrow> app_state \<Rightarrow> handled option" where
  "app fw ex mo req st =
     (case fw_too_large fw (10 * 1024 * 1024) req of
        Some reply \<Rightarrow> Some (reply, st, [])
      | None \<Rightarrow>
          (case fw_find fw app_patterns (in_path req) of
             None \<Rightarrow> Some (fw_no_route fw, st, [])
           | Some pattern \<Rightarrow>
               (case map_of build_admin_router pattern of
                  Some target \<Rightarrow>
                    (case admin_middleware ex (mo_now mo) (admin_router fw mo target req) req st of
                       (reply, st') \<Rightarrow> Some (reply, st', []))
                | None \<Rightarrow> handle_request ex mo req st)))"

subsection \<open>What the handlers leave alone\<close>

lemma admin_handler_state:
  "snd (admin_handler fw mo endpoint req st) = st\<lparr>as_config_store :=
     as_config_store (snd (admin_handler fw mo endpoint req st))\<rparr>"
  by (cases endpoint) (simp_all add: split_beta split: sum.split)

lemma admin_handler_changes:
  "as_config_store (snd (admin_handler fw mo endpoint req st)) \<noteq> as_config_store st \<Longrightarrow>
     endpoint = Config_Draft \<or> endpoint = Config_Activate"
  by (cases endpoint) (simp_all split: sum.splits)

lemma admin_handler_valid:
  assumes "store_valid (as_config_store st)"
  shows "store_valid (as_config_store (snd (admin_handler fw mo endpoint req st)))"
  using assms save_draft_valid [OF assms] activate_valid [OF assms]
  by (cases endpoint)
    (simp_all add: split_beta admin_activate_draft_config_def activate_draft_def split: sum.split)

lemma admin_router_state:
  obtains store where "snd (admin_router fw mo (verb, endpoint) req st) = st\<lparr>as_config_store := store\<rparr>"
    and "store \<noteq> as_config_store st \<Longrightarrow>
      fw_accepts fw verb (in_method req) \<and> (endpoint = Config_Draft \<or> endpoint = Config_Activate)"
    and "store_valid (as_config_store st) \<Longrightarrow> store_valid store"
proof (cases "fw_accepts fw verb (in_method req)")
  case True
  have "snd (admin_router fw mo (verb, endpoint) req st) = st\<lparr>as_config_store :=
     as_config_store (snd (admin_handler fw mo endpoint req st))\<rparr>"
    unfolding admin_router_def using True admin_handler_state [of fw mo endpoint req st] by simp
  then show thesis
    by (rule that) (use True admin_handler_changes [of fw mo endpoint req st] admin_handler_valid [of st] in simp_all)
next
  case False
  then show thesis using that [of "as_config_store st"] by (simp add: admin_router_def)
qed

text \<open>
  So the calls of the admin API are such that the rate limit and the invariant of the state hold under
  every interleaving with them.
\<close>

lemma admin_router_chain: "as_middleware (snd (admin_router fw mo target req st)) = as_middleware st"
proof (cases target)
  case (Pair verb endpoint)
  obtain store where "snd (admin_router fw mo (verb, endpoint) req st) = st\<lparr>as_config_store := store\<rparr>"
    by (rule admin_router_state [of fw mo verb endpoint req st])
  then show ?thesis using Pair by simp
qed

lemma admin_router_leaves: "leaves_chain (Admin_Call ex now (admin_router fw mo target req) req)"
  by (simp add: admin_router_chain)

lemma admin_router_ok:
  assumes "state_ok config st"
  shows "state_ok config (snd (admin_router fw mo target req st))"
proof (cases target)
  case (Pair verb endpoint)
  obtain store where "snd (admin_router fw mo (verb, endpoint) req st) = st\<lparr>as_config_store := store\<rparr>"
    "store_valid (as_config_store st) \<Longrightarrow> store_valid store"
    using admin_router_state [of fw mo verb endpoint req st] by metis
  then show ?thesis using assms Pair by (simp add: state_ok_def)
qed

lemma admin_router_keeps: "keeps_ok config (Admin_Call ex now (admin_router fw mo target req) req)"
  by (simp add: admin_router_ok)

subsection \<open>What a request may change\<close>

lemma handle_request_state:
  assumes "handle_request ex mo req st = Some (reply, st', calls)"
  shows "as_router st' = as_router st \<and> as_config_store st' = as_config_store st"
proof -
  obtain p st1 where enter: "enter_request ex mo req st = (p, st1)" by force
  have "complete_request ex mo p st1 = Some (Answered reply calls, st')"
    using handle_request_parts [of ex mo req st] assms enter by (simp add: answer_def)
  then have "st' = st1 \<or> records st1 st'" by (rule complete_records)
  moreover have "as_router st1 = as_router st \<and> as_config_store st1 = as_config_store st"
    using enter by (cases rule: enter_cases) (auto simp: records_def)
  ultimately show ?thesis by (auto simp: records_def)
qed

lemma admin_middleware_refused:
  assumes "chain_handle_request now (as_middleware st) (admin_core_request req) = (Err e, mw)"
  shows "snd (admin_middleware ex now inner req st) = st\<lparr>as_middleware := mw\<rparr>"
  using assms by (cases e) (simp_all add: admin_middleware_def Let_def)

lemma admin_middleware_admitted:
  assumes "chain_handle_request now (as_middleware st) (admin_core_request req) = (Ok r, mw)"
  shows "snd (admin_middleware ex now inner req st) = snd (inner (st\<lparr>as_middleware := mw\<rparr>))"
  using assms by (simp add: admin_middleware_def Let_def split_beta)

text \<open>The two entries of the routing table that lead to a change of the configurations.\<close>

lemma changing_entries:
  "map_of build_admin_router pattern = Some (verb, endpoint) \<Longrightarrow> endpoint = Config_Draft \<or> endpoint = Config_Activate \<Longrightarrow>
     (verb, pattern) \<in> {(PUT, ''/admin/api/config/draft''), (POST, ''/admin/api/config/activate'')}"
  by (drule map_of_SomeD) (auto simp: build_admin_router_def)

lemma admin_paths_plain: "list_all (\<lambda>p. CHR ''{'' \<notin> set p) (map fst build_admin_router)"
  by (simp add: build_admin_router_def)

lemma admin_patterns_literal:
  assumes "documented fw" "fw_find fw app_patterns path = Some pattern" "map_of build_admin_router pattern = Some target"
  shows "pattern = path"
proof -
  have "CHR ''{'' \<notin> set pattern"
    using map_of_SomeD [OF assms(3)] admin_paths_plain by (force simp: list_all_iff)
  then show ?thesis using documented_match [OF assms(1,2)] by simp
qed

text \<open>
  C5: the configurations change only on the authority of an admitted administrator, and the routing never. Whatever
  the request: the router stays as it is, and if the active configuration or the draft is another
  one afterwards, the request was a PUT to the draft or a POST to its activation, carried one of the
  configured keys where keys are required, was within its client's rate limit, and went to no backend.
\<close>

theorem config_changes_admitted:
  assumes "documented fw" "as_middleware st = chain_with config limits"
    and "app fw ex mo req st = Some (reply, st', calls)"
  shows "as_router st' = as_router st \<and>
    (as_config_store st' \<noteq> as_config_store st \<longrightarrow>
       (in_method req, in_path req) \<in> {(''PUT'', ''/admin/api/config/draft''), (''POST'', ''/admin/api/config/activate'')} \<and>
       authorised config (admin_core_request req) \<and>
       \<not> fst (limiter_verdict config limits (mo_now mo) (admin_core_request req)) \<and> calls = [])"
proof (cases "fw_too_large fw (10 * 1024 * 1024) req = None \<and> (\<exists>pattern verb endpoint.
    fw_find fw app_patterns (in_path req) = Some pattern \<and> map_of build_admin_router pattern = Some (verb, endpoint))")
  case False
  then have "st' = st \<or> handle_request ex mo req st = Some (reply, st', calls)"
    using assms(3) by (auto simp: app_def split: option.splits)
  then show ?thesis using handle_request_state by metis
next
  case True
  then obtain pattern verb endpoint where found: "fw_find fw app_patterns (in_path req) = Some pattern"
    "map_of build_admin_router pattern = Some (verb, endpoint)" by blast
  let ?inner = "admin_router fw mo (verb, endpoint) req"
  have st': "st' = snd (admin_middleware ex (mo_now mo) ?inner req st)" and calls: "calls = []"
    using assms(3) True found by (auto simp: app_def split: prod.splits)
  obtain res mw where chain: "chain_handle_request (mo_now mo) (as_middleware st) (admin_core_request req) = (res, mw)"
    by force
  show ?thesis
  proof (cases res)
    case (Err e)
    then show ?thesis using st' chain admin_middleware_refused by simp
  next
    case (Ok r)
    let ?st = "st\<lparr>as_middleware := mw\<rparr>"
    obtain store where store: "snd (?inner ?st) = ?st\<lparr>as_config_store := store\<rparr>"
      "store \<noteq> as_config_store ?st \<Longrightarrow>
        fw_accepts fw verb (in_method req) \<and> (endpoint = Config_Draft \<or> endpoint = Config_Activate)"
      using admin_router_state [of fw mo verb endpoint req ?st] by metis
    have st'_eq: "st' = ?st\<lparr>as_config_store := store\<rparr>"
      using st' chain Ok admin_middleware_admitted store(1) by simp
    have "fst (chain_handle_request (mo_now mo) (chain_with config limits) (admin_core_request req)) = Ok r"
      using chain Ok assms(2) by simp
    then have admitted: "authorised config (admin_core_request req) \<and>
        \<not> fst (limiter_verdict config limits (mo_now mo) (admin_core_request req))"
      by (rule chain_admits_iff' [THEN iffD1, THEN conjunct2])
    have "(in_method req, in_path req) \<in> {(''PUT'', ''/admin/api/config/draft''), (''POST'', ''/admin/api/config/activate'')}"
      if "store \<noteq> as_config_store st"
    proof -
      have "fw_accepts fw verb (in_method req)"
        "(verb, pattern) \<in> {(PUT, ''/admin/api/config/draft''), (POST, ''/admin/api/config/activate'')}"
        using that store(2) changing_entries [OF found(2)] by simp_all
      then show ?thesis
        using admin_patterns_literal [OF assms(1) found] documented_methods [OF assms(1)] by auto
    qed
    then show ?thesis using st'_eq admitted calls by simp
  qed
qed

text \<open>A framework that matches as documented, with an empty answer to everything, and an activation through it.\<close>

definition plain_framework :: framework where
  "plain_framework =
     \<lparr>fw_too_large = \<lambda>_ _. None,
      fw_find = \<lambda>patterns path. if path \<in> set patterns then Some path
        else find (\<lambda>p. CHR ''{'' \<in> set p) patterns,
      fw_no_route = status_reply 404,
      fw_accepts = \<lambda>verb m. (case verb of GET \<Rightarrow> m = ''GET'' \<or> m = ''HEAD'' | POST \<Rightarrow> m = ''POST'' | PUT \<Rightarrow> m = ''PUT''),
      fw_not_allowed = status_reply 405, fw_json = \<lambda>_. Inl (status_reply 400), fw_query = \<lambda>_. Inr None,
      fw_response = \<lambda>_. status_reply 200, fw_version = []\<rparr>"

lemma plain_documented: "documented plain_framework"
  by (auto simp: documented_def plain_framework_def find_Some_iff)

definition edited_state :: app_state where
  "edited_state = (fresh_state minimal_config)\<lparr>as_config_store := \<lparr>acs_active = minimal_config, acs_draft = limited_config\<rparr>\<rparr>"

definition activation :: incoming where
  "activation = (get_request ''/admin/api/config/activate'')\<lparr>in_method := ''POST''\<rparr>"

lemma edited_chain: "as_middleware edited_state = chain_with (gc_middleware minimal_config) []"
  by (simp add: edited_state_def fresh_state_def build_middleware_chain_with)

lemma activation_admitted:
  "chain_handle_request 0 (as_middleware edited_state) (admin_core_request activation)
     = (Ok (admin_core_request activation), as_middleware edited_state)"
  unfolding edited_chain
  by (simp add: chain_with_cases authorised_def limiter_verdict_def minimal_config_def default_middleware_def
      default_rate_limit_config_def)

lemma activation_found:
  "fw_find plain_framework app_patterns (in_path activation) = Some ''/admin/api/config/activate''"
  "map_of build_admin_router ''/admin/api/config/activate'' = Some (POST, Config_Activate)"
  by (simp_all add: plain_framework_def app_patterns_def build_admin_router_def activation_def get_request_def)

lemma activation_handled:
  "snd (admin_router plain_framework noon (POST, Config_Activate) activation edited_state)
     = edited_state\<lparr>as_config_store := \<lparr>acs_active = limited_config, acs_draft = limited_config\<rparr>\<rparr>"
  by (simp add: admin_router_def plain_framework_def activation_def admin_activate_draft_config_def
      activate_draft_def activate_read_draft_def limited_config_valid edited_state_def)

lemma activation_app:
  "\<exists>reply. app plain_framework refusing noon activation edited_state
     = Some (reply, edited_state\<lparr>as_config_store := \<lparr>acs_active = limited_config, acs_draft = limited_config\<rparr>\<rparr>, [])"
proof -
  let ?inner = "admin_router plain_framework noon (POST, Config_Activate) activation"
  obtain reply st' where run: "admin_middleware refusing 0 ?inner activation edited_state = (reply, st')" by force
  have "st' = snd (?inner edited_state)"
    using run admin_middleware_admitted [OF activation_admitted, of refusing ?inner] by simp
  then show ?thesis using run activation_handled activation_found
    by (simp add: app_def plain_framework_def noon_def)
qed

theorem config_changes_admitted_witness:
  "\<exists>reply st' calls. app plain_framework refusing noon activation edited_state = Some (reply, st', calls) \<and>
    as_config_store st' \<noteq> as_config_store edited_state \<and> as_router st' = as_router edited_state \<and>
    authorised (gc_middleware minimal_config) (admin_core_request activation) \<and> calls = []"
proof -
  obtain reply where run: "app plain_framework refusing noon activation edited_state
     = Some (reply, edited_state\<lparr>as_config_store := \<lparr>acs_active = limited_config, acs_draft = limited_config\<rparr>\<rparr>, [])"
    using activation_app by blast
  have "limited_config \<noteq> minimal_config"
    by (simp add: limited_config_def proxy_config_def minimal_config_def)
  then show ?thesis using config_changes_admitted [OF plain_documented edited_chain run] run
    by (simp add: edited_state_def)
qed

subsection \<open>Runs of the application\<close>

text \<open>A path of the admin API is never proxied, even where a configured route matches it.\<close>

lemma admin_paths_reserved:
  assumes "documented fw" "in_path req \<in> set (map fst build_admin_router)" "app fw ex mo req st = Some (reply, st', calls)"
  shows "calls = []"
proof -
  have "in_path req \<in> set app_patterns" using assms(2) by (simp add: app_patterns_def)
  then have "fw_find fw app_patterns (in_path req) = Some (in_path req)"
    using assms(1,2) admin_paths_plain by (intro documented_literal) (auto simp: list_all_iff)
  moreover obtain target where "map_of build_admin_router (in_path req) = Some target"
    using assms(2) by (metis map_of_eq_None_iff not_Some_eq set_map)
  ultimately show ?thesis using assms(3) by (auto simp: app_def split: option.splits prod.splits)
qed

fun app_run ::
  "framework \<Rightarrow> (externals \<times> moment \<times> incoming) list \<Rightarrow> app_state
     \<Rightarrow> ((http_reply \<times> upstream_call list) list \<times> app_state) option" where
  "app_run fw [] st = Some ([], st)"
| "app_run fw ((ex, mo, req) # as) st =
     (case app fw ex mo req st of
        None \<Rightarrow> None
      | Some (reply, st', calls) \<Rightarrow> map_option (apfst (Cons (reply, calls))) (app_run fw as st'))"

lemma handle_request_ok:
  assumes "state_ok config st" "handle_request ex mo req st = Some (reply, st', calls)"
  shows "state_ok config st'"
proof -
  obtain p st1 where enter: "enter_request ex mo req st = (p, st1)" by force
  have "complete_request ex mo p st1 = Some (Answered reply calls, st')"
    using handle_request_parts [of ex mo req st] assms(2) enter by (simp add: answer_def)
  then have "st' = st1 \<or> records st1 st'" by (rule complete_records)
  then show ?thesis using enter_ok [OF assms(1) enter] state_ok_records by blast
qed

lemma app_ok:
  assumes "state_ok config st" "app fw ex mo req st = Some (reply, st', calls)"
  shows "state_ok config st'"
proof -
  consider "st' = st" | "handle_request ex mo req st = Some (reply, st', calls)"
    | target where "admin_middleware ex (mo_now mo) (admin_router fw mo target req) req st = (reply, st')"
    using assms(2) by (auto simp: app_def split: option.splits prod.splits)
  then show ?thesis
  proof cases
    case (3 target)
    then show ?thesis
      using admin_ok [OF assms(1), of "admin_router fw mo target req" ex "mo_now mo" req] admin_router_ok by simp
  qed (use assms(1) handle_request_ok in simp_all)
qed

lemma app_answers:
  assumes "sane ex" "\<And>r. in_upgrade req = Some r \<Longrightarrow> re_status r = 101"
  shows "\<exists>reply st' calls. app fw ex mo req st = Some (reply, st', calls)"
  using handle_request_answers [of ex req mo st] assms
  by (auto simp: app_def split: option.splits prod.splits)

definition orderly :: "externals \<times> moment \<times> incoming \<Rightarrow> bool" where
  "orderly a = (case a of (ex, mo, req) \<Rightarrow> sane ex \<and> (\<forall>r. in_upgrade req = Some r \<longrightarrow> re_status r = 101))"

lemma app_run_ok:
  "list_all orderly as \<Longrightarrow> state_ok config st \<Longrightarrow>
     \<exists>replies st'. app_run fw as st = Some (replies, st') \<and> length replies = length as \<and> state_ok config st'"
proof (induction fw as st rule: app_run.induct)
  case (2 fw ex mo req as st)
  obtain reply st1 calls where app: "app fw ex mo req st = Some (reply, st1, calls)"
    using 2(2) app_answers [of ex req fw mo st] by (auto simp: orderly_def)
  have "\<exists>replies st'. app_run fw as st1 = Some (replies, st') \<and> length replies = length as \<and> state_ok config st'"
    using 2(1) [OF app refl refl] 2(2) app_ok [OF 2(3) app] by simp
  then show ?case using app by auto
qed simp

text \<open>
  C8: the gateway as a whole keeps serving. Created from a valid configuration it answers every request of
  every sequence, to the routes or to the admin API, whatever backends and clients do, and its shared
  state stays well formed.
\<close>

theorem gateway_keeps_serving:
  assumes "validate config = Ok ()" "create_gateway config started_at = Ok g" "list_all orderly as"
  shows "\<exists>replies st'. app_run fw as (gw_state g) = Some (replies, st') \<and> length replies = length as \<and> state_ok config st'"
  using assms(3) created_ok [OF assms(1,2)] by (rule app_run_ok)

theorem gateway_keeps_serving_witness:
  "\<exists>g replies st'. create_gateway limited_config 0 = Ok g \<and>
     app_run plain_framework [(refusing, noon, get_request ''/api''), (refusing, noon, activation)] (gw_state g)
       = Some (replies, st') \<and> length replies = 2 \<and> state_ok limited_config st'"
proof -
  obtain g where g: "create_gateway limited_config 0 = Ok g"
    by (simp add: create_gateway_def limited_config_def proxy_config_def minimal_config_def build_protocols_def)
  have "list_all orderly [(refusing, noon, get_request ''/api''), (refusing, noon, activation)]"
    by (simp add: orderly_def sane_refusing get_request_def activation_def)
  from gateway_keeps_serving [OF limited_config_valid g this, of plain_framework] g
  show ?thesis by (simp only: list.size) force
qed

end
