(* ===== verification/Metrics_Concurrent.thy ===== *)
theory Metrics_Concurrent
  imports Admin "HOL-Library.Multiset"
begin

section \<open>Concurrent recording (src/admin/store.rs)\<close>

text \<open>
  \<open>record_request\<close> takes no lock over its whole body: it draws an identifier, adds to the atomic
  counters and enters one critical section after the other, and the calls of concurrent requests
  interleave between them. A call in progress is its log entry with the sections it has still to run;
  an action begins a call, advances one by a section, or lets the ticker run.
\<close>

subsection \<open>Calls as sequences of sections\<close>

datatype critical =
    Count_Total | Count_Error | Count_Status | Count_Route | Count_Bucket | Keep_Latency | Keep_Log | Broadcast

definition all_sections :: "critical list" where
  "all_sections =
     [Count_Total, Count_Error, Count_Status, Count_Route, Count_Bucket, Keep_Latency, Keep_Log, Broadcast]"

definition begin_record :: "u64 \<Rightarrow> measurement \<Rightarrow> metrics_store \<Rightarrow> request_log_entry \<times> metrics_store" where
  "begin_record timestamp_ms m st =
     (log_entry (st_next_id st) timestamp_ms m, st\<lparr>st_next_id := st_next_id st + 1\<rparr>)"

definition entry_error :: "request_log_entry \<Rightarrow> bool" where
  "entry_error e = is_error (le_status_code e) (le_error e)"

fun run_section :: "critical \<Rightarrow> request_log_entry \<Rightarrow> metrics_store \<Rightarrow> metrics_store" where
  "run_section Count_Total e st = st\<lparr>st_total_requests := st_total_requests st + 1\<rparr>"
| "run_section Count_Error e st =
     (if entry_error e then st\<lparr>st_total_errors := st_total_errors st + 1\<rparr> else st)"
| "run_section Count_Status e st =
     st\<lparr>st_status_code_counts := count_status (le_status_code e) (st_status_code_counts st)\<rparr>"
| "run_section Count_Route e st =
     (case le_matched_route e of
        Some r \<Rightarrow> st\<lparr>st_route_stats := update_route_stats r (entry_error e) (le_latency_ms e) (st_route_stats st)\<rparr>
      | None \<Rightarrow> st)"
| "run_section Count_Bucket e st =
     st\<lparr>st_time_buckets :=
          update_buckets (le_timestamp_ms e div 1000) (entry_error e) (le_latency_ms e) (st_time_buckets st)\<rparr>"
| "run_section Keep_Latency e st =
     st\<lparr>st_recent_latencies := push_latency (le_latency_ms e) (st_recent_latencies st)\<rparr>"
| "run_section Keep_Log e st = st\<lparr>st_request_log := push_log e (st_request_log st)\<rparr>"
| "run_section Broadcast e st = st\<lparr>st_events := st_events st @ [e]\<rparr>"

text \<open>Run without interruption, the sections are the sequential operation.\<close>

lemma record_request_sections:
  "record_request timestamp_ms m st =
     (case begin_record timestamp_ms m st of (e, st') \<Rightarrow> fold (\<lambda>s. run_section s e) all_sections st')"
  by (auto simp: record_request_def begin_record_def all_sections_def Let_def log_entry_def entry_error_def
      split: option.splits)

subsection \<open>Interleavings\<close>

type_synonym call = "request_log_entry \<times> critical list"

record recording =
  rr_store :: metrics_store
  rr_calls :: "call list"

datatype recording_action = Begin u64 measurement | Advance nat | Ticker u64

fun recording_step :: "recording_action \<Rightarrow> recording \<Rightarrow> recording" where
  "recording_step (Begin timestamp_ms m) r =
     (case begin_record timestamp_ms m (rr_store r) of
        (e, st) \<Rightarrow> \<lparr>rr_store = st, rr_calls = rr_calls r @ [(e, all_sections)]\<rparr>)"
| "recording_step (Advance i) r =
     (if i < length (rr_calls r) then
        case rr_calls r ! i of
          (e, s # rest) \<Rightarrow> \<lparr>rr_store = run_section s e (rr_store r), rr_calls = (rr_calls r)[i := (e, rest)]\<rparr>
        | (e, []) \<Rightarrow> r
      else r)"
| "recording_step (Ticker now_secs) r = r\<lparr>rr_store := tick now_secs (rr_store r)\<rparr>"

definition recording_run :: "recording_action list \<Rightarrow> nat \<Rightarrow> recording" where
  "recording_run actions started_at = fold recording_step actions \<lparr>rr_store = metrics_new started_at, rr_calls = []\<rparr>"

fun begun :: "recording_action list \<Rightarrow> (u64 \<times> measurement) list" where
  "begun [] = []"
| "begun (Begin t m # as) = (t, m) # begun as"
| "begun (a # as) = begun as"

definition quiescent :: "recording \<Rightarrow> bool" where
  "quiescent r \<longleftrightarrow> list_all (\<lambda>(e, rest). rest = []) (rr_calls r)"

lemma recording_run_snoc [simp]:
  "recording_run (as @ [a]) t0 = recording_step a (recording_run as t0)"
  by (simp add: recording_run_def)

lemma recording_run_Nil [simp]: "recording_run [] t0 = \<lparr>rr_store = metrics_new t0, rr_calls = []\<rparr>"
  by (simp add: recording_run_def)

lemma begun_append [simp]: "begun (as @ bs) = begun as @ begun bs"
  by (induction as rule: begun.induct) auto

subsection \<open>What the calls have contributed so far\<close>

definition contribution :: "critical \<Rightarrow> (request_log_entry \<Rightarrow> u64) \<Rightarrow> call list \<Rightarrow> u64" where
  "contribution s g calls = sum_list (map (\<lambda>(e, rest). if s \<in> set rest then 0 else g e) calls)"

lemma contribution_Nil [simp]: "contribution s g [] = 0"
  by (simp add: contribution_def)

lemma contribution_begin [simp]: "contribution s g (calls @ [(e, all_sections)]) = contribution s g calls"
  by (cases s) (simp_all add: contribution_def all_sections_def)

lemma contribution_advance:
  assumes "i < length calls" "calls ! i = (e, s # rest)" "s \<notin> set rest"
  shows "contribution s' g (calls[i := (e, rest)]) = contribution s' g calls + (if s' = s then g e else 0)"
proof -
  let ?f = "\<lambda>(e, rest). if s' \<in> set rest then 0 else g e"
  have "contribution s' g (calls[i := (e, rest)]) + ?f (calls ! i) = contribution s' g calls + ?f (e, rest)"
    unfolding contribution_def using assms(1) by (rule sum_list_map_update)
  then show ?thesis using assms(2,3) by auto
qed

lemma contribution_quiescent:
  "quiescent r \<Longrightarrow> contribution s g (rr_calls r) = sum_list (map (\<lambda>(e, _). g e) (rr_calls r))"
  by (fastforce simp: quiescent_def contribution_def list_all_iff intro!: arg_cong [of _ _ sum_list])

lemma rest_suffix:
  assumes "(e, rest) \<in> set (rr_calls (recording_run as t0))"
  shows "suffix rest all_sections"
  using assms
proof (induction as arbitrary: e rest rule: rev_induct)
  case (snoc a as)
  let ?calls = "rr_calls (recording_run as t0)"
  show ?case
  proof (cases a)
    case (Begin t m)
    then show ?thesis using snoc by (auto simp: begin_record_def)
  next
    case (Advance i)
    show ?thesis
    proof (cases "i < length ?calls")
      case True
      obtain e' r where at: "?calls ! i = (e', r)" by force
      then have "(e', r) \<in> set ?calls" using True nth_mem by fastforce
      then have "suffix r all_sections" by (rule snoc.IH)
      then show ?thesis using snoc Advance at True
        by (cases r) (auto dest!: set_update_subset_insert [THEN subsetD] dest: suffix_ConsD)
    qed (use snoc Advance in auto)
  qed (use snoc in auto)
qed simp

lemma rest_distinct:
  assumes "(e, rest) \<in> set (rr_calls (recording_run as t0))"
  shows "distinct rest"
proof -
  obtain before where "all_sections = before @ rest" using rest_suffix [OF assms] by (auto simp: suffix_def)
  moreover have "distinct all_sections" by (simp add: all_sections_def)
  ultimately show ?thesis by (metis distinct_append)
qed

lemma calls_entries: "map fst (rr_calls (recording_run as t0)) = entries_from 1 (begun as)"
  and calls_next_id: "st_next_id (rr_store (recording_run as t0)) = 1 + of_nat (length (begun as))"
proof (induction as rule: rev_induct)
  case (snoc a as)
  let ?r = "recording_run as t0"
  have section_id: "st_next_id (run_section s e st) = st_next_id st" for s e st
    by (cases s) (simp_all split: option.splits)
  { case 1
    show ?case
    proof (cases a)
      case (Advance i)
      then have "map fst (rr_calls (recording_step a ?r)) = map fst (rr_calls ?r)"
        by (cases "i < length (rr_calls ?r)")
          (auto simp: map_update list_update_same_conv split: prod.splits list.splits)
      then show ?thesis using snoc Advance by simp
    qed (use snoc in \<open>auto simp: begin_record_def\<close>) }
  { case 2
    show ?case using snoc
      by (cases a) (auto simp: begin_record_def section_id split: prod.splits list.splits) }
qed simp_all

text \<open>Every counter holds what the calls that passed its section add to it, at every moment of every interleaving.\<close>

definition route_share :: "string \<Rightarrow> (request_log_entry \<Rightarrow> u64) \<Rightarrow> request_log_entry \<Rightarrow> u64" where
  "route_share route g e = (if le_matched_route e = Some route then g e else 0)"

lemma recording_counters:
  "st_total_requests (rr_store (recording_run as t0)) = contribution Count_Total (\<lambda>_. 1) (rr_calls (recording_run as t0)) \<and>
   st_total_errors (rr_store (recording_run as t0)) =
     contribution Count_Error (\<lambda>e. if entry_error e then 1 else 0) (rr_calls (recording_run as t0)) \<and>
   status_count (rr_store (recording_run as t0)) code =
     contribution Count_Status (\<lambda>e. if le_status_code e = code then 1 else 0) (rr_calls (recording_run as t0)) \<and>
   stats_of (rr_store (recording_run as t0)) route =
     \<lparr>rt_total_requests = contribution Count_Route (route_share route (\<lambda>_. 1)) (rr_calls (recording_run as t0)),
      rt_error_count = contribution Count_Route (route_share route (\<lambda>e. if entry_error e then 1 else 0))
        (rr_calls (recording_run as t0)),
      rt_total_latency_ms = contribution Count_Route (route_share route le_latency_ms) (rr_calls (recording_run as t0))\<rparr>"
proof (induction as rule: rev_induct)
  case Nil
  show ?case by (simp add: status_count_def get_status_code_counts_def stats_of_def get_route_stats_def default_route_stats_def)
next
  case (snoc a as)
  let ?r = "recording_run as t0"
  show ?case
  proof (cases a)
    case (Begin t m)
    then show ?thesis using snoc
      by (simp add: begin_record_def status_count_def get_status_code_counts_def stats_of_def get_route_stats_def)
  next
    case (Ticker t)
    then show ?thesis using snoc by simp
  next
    case (Advance i)
    show ?thesis
    proof (cases "i < length (rr_calls ?r) \<and> snd (rr_calls ?r ! i) \<noteq> []")
      case True
      then obtain e s rest where at: "rr_calls ?r ! i = (e, s # rest)" and i: "i < length (rr_calls ?r)"
        by (metis list.exhaust prod.collapse)
      then have "(e, s # rest) \<in> set (rr_calls ?r)" by (metis nth_mem)
      then have "s \<notin> set rest" using rest_distinct by fastforce
      note adv = contribution_advance [OF i at this]
      show ?thesis using snoc Advance i at
        by (cases s) (simp_all add: adv route_share_def status_count_def get_status_code_counts_def count_status_def
            stats_of_def get_route_stats_def update_route_stats_def Let_def update_conv' split: option.splits)
    next
      case False
      then show ?thesis using snoc Advance by (auto split: prod.splits list.splits)
    qed
  qed
qed

text \<open>The events are those of the calls that passed the last section.\<close>

definition announced :: "call \<Rightarrow> request_log_entry multiset" where
  "announced c = (if Broadcast \<in> set (snd c) then {#} else {#fst c#})"

lemma recording_events:
  "mset (st_events (rr_store (recording_run as t0))) = sum_list (map announced (rr_calls (recording_run as t0)))"
proof (induction as rule: rev_induct)
  case (snoc a as)
  let ?r = "recording_run as t0"
  show ?case
  proof (cases a)
    case (Begin t m)
    then show ?thesis using snoc by (simp add: begin_record_def announced_def all_sections_def)
  next
    case (Ticker t)
    then show ?thesis using snoc by simp
  next
    case (Advance i)
    show ?thesis
    proof (cases "i < length (rr_calls ?r) \<and> snd (rr_calls ?r ! i) \<noteq> []")
      case True
      then obtain e s rest where at: "rr_calls ?r ! i = (e, s # rest)" and i: "i < length (rr_calls ?r)"
        by (metis list.exhaust prod.collapse)
      then have "(e, s # rest) \<in> set (rr_calls ?r)" by (metis nth_mem)
      then have "suffix (s # rest) all_sections" by (rule rest_suffix)
      then have last: "(s = Broadcast \<and> rest = []) \<or> (s \<noteq> Broadcast \<and> Broadcast \<in> set rest)"
        by (auto simp: all_sections_def suffix_Cons)
      then have "announced (e, s # rest) = {#}" by (auto simp: announced_def)
      then have "sum_list (map announced ((rr_calls ?r)[i := (e, rest)])) =
          sum_list (map announced (rr_calls ?r)) + announced (e, rest)"
        using sum_list_map_update [OF i, of announced "(e, rest)"] at by simp
      moreover have "mset (st_events (run_section s e (rr_store ?r))) =
          mset (st_events (rr_store ?r)) + announced (e, rest)"
        using last by (cases s) (auto simp: announced_def split: option.splits)
      ultimately show ?thesis using snoc Advance i at by simp
    next
      case False
      then show ?thesis using snoc Advance by (auto split: prod.splits list.splits)
    qed
  qed
qed simp

lemma announced_quiescent:
  "quiescent r \<Longrightarrow> sum_list (map announced (rr_calls r)) = mset (map fst (rr_calls r))"
proof -
  have "list_all (\<lambda>(e, rest). rest = []) calls \<Longrightarrow> sum_list (map announced calls) = mset (map fst calls)"
    for calls by (induction calls) (auto simp: announced_def)
  then show "quiescent r \<Longrightarrow> sum_list (map announced (rr_calls r)) = mset (map fst (rr_calls r))"
    by (simp add: quiescent_def)
qed

subsection \<open>At rest, the order makes no difference\<close>

lemma advance_last:
  "fold recording_step (replicate (length rest) (Advance (length calls)))
      \<lparr>rr_store = st, rr_calls = calls @ [(e, rest)]\<rparr> =
    \<lparr>rr_store = fold (\<lambda>s. run_section s e) rest st, rr_calls = calls @ [(e, [])]\<rparr>"
  by (induction rest arbitrary: st) simp_all

lemma sequential_recording:
  "\<exists>as. begun as = rs \<and> quiescent (recording_run as t0) \<and>
     rr_store (recording_run as t0) = metrics_run (map (\<lambda>(t, m). Record t m) rs) (metrics_new t0)"
proof (induction rs rule: rev_induct)
  case Nil
  show ?case by (rule exI [of _ "[]"]) (simp add: quiescent_def)
next
  case (snoc tm rs)
  obtain t m where tm: "tm = (t, m)" by force
  from snoc obtain as where as: "begun as = rs" "quiescent (recording_run as t0)"
    "rr_store (recording_run as t0) = metrics_run (map (\<lambda>(t, m). Record t m) rs) (metrics_new t0)" by blast
  let ?r = "recording_run as t0"
  let ?more = "Begin t m # replicate (length all_sections) (Advance (length (rr_calls ?r)))"
  obtain e st where b: "begin_record t m (rr_store ?r) = (e, st)" by force
  have run: "recording_run (as @ ?more) t0 =
      \<lparr>rr_store = fold (\<lambda>s. run_section s e) all_sections st, rr_calls = rr_calls ?r @ [(e, [])]\<rparr>"
    using b advance_last [of all_sections "rr_calls ?r" st e]
    by (simp add: recording_run_def)
  have "begun (replicate n (Advance i)) = []" for n i by (induction n) simp_all
  then show ?case
    using as b tm unfolding run
    by (intro exI [of _ "as @ ?more"]) (simp add: run quiescent_def record_request_sections)
qed

lemma quiescent_determined:
  assumes "quiescent (recording_run as t0)" "quiescent (recording_run bs t1)" "begun as = begun bs"
  shows "contribution s g (rr_calls (recording_run as t0)) = contribution s g (rr_calls (recording_run bs t1))"
proof -
  have "contribution s g (rr_calls (recording_run cs t)) = sum_list (map g (entries_from 1 (begun cs)))"
    if "quiescent (recording_run cs t)" for cs t
    unfolding contribution_quiescent [OF that] calls_entries [of cs t, symmetric]
    by (simp add: split_def comp_def)
  then show ?thesis using assms by simp
qed

text \<open>
  C9: concurrent recording loses and invents nothing. Take any interleaving of the critical sections of any
  number of calls with each other and with the ticker. Once every call has finished, the totals, the
  count of every status code and the statistics of every route are those of recording the same
  requests one after the other, and the same entries were broadcast.
\<close>

theorem recording_interleaved:
  assumes "quiescent (recording_run as t0)"
    and "st = rr_store (recording_run as t0)"
    and "sq = metrics_run (map (\<lambda>(t, m). Record t m) (begun as)) (metrics_new t0)"
  shows "st_total_requests st = st_total_requests sq \<and> st_total_errors st = st_total_errors sq \<and>
    status_count st code = status_count sq code \<and> stats_of st route = stats_of sq route \<and>
    mset (st_events st) = mset (st_events sq)"
proof -
  obtain bs where bs: "begun bs = begun as" "quiescent (recording_run bs t0)" "rr_store (recording_run bs t0) = sq"
    using sequential_recording [of "begun as" t0] assms(3) by blast
  note same = quiescent_determined [OF assms(1) bs(2) bs(1) [symmetric]]
  have "mset (st_events (rr_store (recording_run cs t0))) = mset (entries_from 1 (begun cs))"
    if "quiescent (recording_run cs t0)" for cs
    using that unfolding recording_events announced_quiescent [OF that] calls_entries by simp
  from this [OF assms(1)] this [OF bs(2)]
  have "mset (st_events st) = mset (st_events sq)" using bs assms(2) by simp
  then show ?thesis
    using recording_counters [of as t0 code route] recording_counters [of bs t0 code route] same assms(1,2) bs
    by simp
qed

definition answered :: "u16 \<Rightarrow> measurement" where
  "answered status = \<lparr>me_method = ''GET'', me_path = ''/x'', me_matched_route = Some ''/'', me_upstream_target = [],
     me_status_code = status, me_latency_ms = 1, me_error = None\<rparr>"

theorem recording_interleaved_witness:
  "\<exists>as. begun as = [(5, answered 200), (6, answered 500)] \<and>
     st_total_errors (rr_store (recording_run as 0)) = 1"
proof -
  let ?as = "[Begin 5 (answered 200), Begin 6 (answered 500), Advance 1, Advance 0, Ticker 9]
     @ replicate 7 (Advance 0) @ replicate 7 (Advance 1)"
  have b: "begun ?as = [(5, answered 200), (6, answered 500)]" by (simp add: numeral_eq_Suc)
  have "quiescent (recording_run ?as 0)"
    by (simp add: quiescent_def recording_run_def begin_record_def all_sections_def numeral_eq_Suc)
  from recording_interleaved [OF this refl refl] b counters_run [of "map (\<lambda>(t, m). Record t m) (begun ?as)" 0]
  have "st_total_errors (rr_store (recording_run ?as 0)) = 1"
    by (simp add: errors_of_def answered_def is_error_def)
  then show ?thesis using b by blast
qed

subsection \<open>Readers\<close>

lemma contribution_count:
  "contribution s (\<lambda>e. if P e then 1 else 0) calls = of_nat (length (filter (\<lambda>(e, rest). s \<notin> set rest \<and> P e) calls))"
  by (induction calls) (auto simp: contribution_def split: if_splits)

text \<open>At every moment of every interleaving the errors counted are among the requests counted.\<close>

lemma errors_at_most_total:
  assumes "length (begun as) < 2 ^ 64"
  shows "unat (st_total_errors (rr_store (recording_run as t0))) \<le> unat (st_total_requests (rr_store (recording_run as t0)))"
proof -
  let ?calls = "rr_calls (recording_run as t0)"
  have len: "length ?calls = length (begun as)" using arg_cong [OF calls_entries [of as t0], of length] by simp
  have small: "unat (of_nat (length (filter P ?calls)) :: u64) = length (filter P ?calls)" for P
    using assms length_filter_le [of P ?calls] len by (simp add: unat_of_nat)
  have "Count_Total \<notin> set rest" if "(e, rest) \<in> set ?calls" "Count_Error \<notin> set rest" for e rest
    using rest_suffix [OF that(1)] that(2) by (auto simp: all_sections_def suffix_Cons)
  then have "filter (\<lambda>(e, rest). Count_Error \<notin> set rest \<and> entry_error e) ?calls =
      filter (\<lambda>(e, rest). Count_Error \<notin> set rest \<and> entry_error e) (filter (\<lambda>(e, rest). Count_Total \<notin> set rest) ?calls)"
    by (auto simp: intro!: filter_cong)
  then have "length (filter (\<lambda>(e, rest). Count_Error \<notin> set rest \<and> entry_error e) ?calls)
      \<le> length (filter (\<lambda>(e, rest). Count_Total \<notin> set rest) ?calls)"
    by (metis length_filter_le)
  then show ?thesis
    using recording_counters [of as t0] contribution_count [of Count_Total "\<lambda>_. True" ?calls]
      contribution_count [of Count_Error entry_error ?calls] by (simp add: small)
qed

text \<open>
  But \<open>admin_metrics\<close> loads the total first and the errors later. Requests that fail in between count
  among the errors only, so the reported error rate can exceed 1.
\<close>

lemma error_rate_race:
  "\<exists>as bs. error_rate_of (st_total_requests (rr_store (recording_run as 0)))
     (st_total_errors (rr_store (recording_run (as @ bs) 0))) = 2"
proof -
  let ?as = "[Begin 5 (answered 500), Advance 0, Advance 0]"
  let ?bs = "[Begin 6 (answered 500), Advance 1, Advance 1]"
  have "st_total_requests (rr_store (recording_run ?as 0)) = 1" "st_total_errors (rr_store (recording_run (?as @ ?bs) 0)) = 2"
    by (simp_all add: recording_run_def begin_record_def all_sections_def entry_error_def log_entry_def answered_def is_error_def)
  moreover have "error_rate_of 1 2 = 2"
    using f64_of_nat_exact [of 2] f64_of_nat_exact [of 1]
    by (simp add: error_rate_of_def f64_div_def f64_of_nat_def word_less_nat_alt)
  ultimately show ?thesis by (intro exI [of _ ?as] exI [of _ ?bs]) simp
qed

end
