(* ===== verification/Websocket.thy ===== *)
theory Websocket
  imports Config
begin

section \<open>The WebSocket proxy (src/gateway/ws.rs)\<close>

text \<open>
  Conversion between the message types of axum and tungstenite, normalisation of the backend URL,
  and the session: two pumps that run concurrently, from the client to the backend and back, until
  one of them has completed. The close codes of tungstenite are its own type; its conversions from and
  to numbers are parameters. A run of a session is the sequence of what the awaits of the two pumps
  return: items of the streams, results of sending, and the closing of a sink.
\<close>

subsection \<open>Messages\<close>

record axum_close =
  ac_code :: u16
  ac_reason :: string

datatype axum_message =
    AText string | ABinary bytes | APing bytes | APong bytes | AClose "axum_close option"

record 'code tung_close =
  tc_code :: 'code
  tc_reason :: string

datatype 'code tung_message =
    TText string | TBinary bytes | TPing bytes | TPong bytes | TClose "'code tung_close option" | TFrame bytes

fun axum_to_tungstenite :: "(u16 \<Rightarrow> 'code) \<Rightarrow> axum_message \<Rightarrow> 'code tung_message option" where
  "axum_to_tungstenite code (AText s) = Some (TText s)"
| "axum_to_tungstenite code (ABinary b) = Some (TBinary b)"
| "axum_to_tungstenite code (APing b) = Some (TPing b)"
| "axum_to_tungstenite code (APong b) = Some (TPong b)"
| "axum_to_tungstenite code (AClose frame) =
     Some (TClose (map_option (\<lambda>f. \<lparr>tc_code = code (ac_code f), tc_reason = ac_reason f\<rparr>) frame))"

fun tungstenite_to_axum :: "('code \<Rightarrow> u16) \<Rightarrow> 'code tung_message \<Rightarrow> axum_message option" where
  "tungstenite_to_axum num (TText s) = Some (AText s)"
| "tungstenite_to_axum num (TBinary b) = Some (ABinary b)"
| "tungstenite_to_axum num (TPing b) = Some (APing b)"
| "tungstenite_to_axum num (TPong b) = Some (APong b)"
| "tungstenite_to_axum num (TClose frame) =
     Some (AClose (map_option (\<lambda>f. \<lparr>ac_code = num (tc_code f), ac_reason = tc_reason f\<rparr>) frame))"
| "tungstenite_to_axum num (TFrame b) = None"

fun is_axum_close :: "axum_message \<Rightarrow> bool" where
  "is_axum_close (AClose f) = True"
| "is_axum_close m = False"

fun is_tung_close :: "'code tung_message \<Rightarrow> bool" where
  "is_tung_close (TClose f) = True"
| "is_tung_close m = False"

subsection \<open>The backend URL\<close>

definition normalize_ws_url :: "string \<Rightarrow> string + string" where
  "normalize_ws_url url =
     (if starts_with url ''ws://'' \<or> starts_with url ''wss://'' then Inr url
      else if starts_with url ''http://'' then Inr (str_replace_first ''http://'' ''ws://'' url)
      else if starts_with url ''https://'' then Inr (str_replace_first ''https://'' ''wss://'' url)
      else if \<not> str_contains url ''://'' then Inr (''ws://'' @ url)
      else Inl ''WebSocket backend URL must use ws://, wss://, http://, or https:// scheme'')"

subsection \<open>The pumps\<close>

text \<open>
  A pump is an asynchronous loop; its state is the await it is suspended in: for the next item of its
  stream, for the sending of a converted message (which remembers whether that message was a close),
  for the closing of its sink, or none since it has completed. An event is what that await returns. A
  step is not possible in a state that does not wait for the event. A message counts as passed on when
  the sending of it returned without an error.
\<close>

datatype 'm stream_item = Stream_End | Stream_Error | Stream_Msg 'm

datatype 'm pump_event = Received "'m stream_item" | Sent bool | Sink_Closed

datatype 'm pump_state = Receiving | Sending 'm bool | Closing | Finished

fun c2b_step ::
  "(u16 \<Rightarrow> 'code) \<Rightarrow> 'code tung_message pump_state \<Rightarrow> axum_message pump_event
     \<Rightarrow> ('code tung_message pump_state \<times> 'code tung_message list) option" where
  "c2b_step code Receiving (Received item) =
     (case item of
        Stream_End \<Rightarrow> Some (Closing, [])
      | Stream_Error \<Rightarrow> Some (Closing, [])
      | Stream_Msg msg \<Rightarrow>
          (let is_close = is_axum_close msg
           in case axum_to_tungstenite code msg of
                Some t_msg \<Rightarrow> Some (Sending t_msg is_close, [])
              | None \<Rightarrow> Some (if is_close then Closing else Receiving, [])))"
| "c2b_step code (Sending t_msg is_close) (Sent ok) =
     (if \<not> ok then Some (Closing, [])
      else Some (if is_close then Closing else Receiving, [t_msg]))"
| "c2b_step code Closing Sink_Closed = Some (Finished, [])"
| "c2b_step code s e = None"

fun b2c_step ::
  "('code \<Rightarrow> u16) \<Rightarrow> axum_message pump_state \<Rightarrow> 'code tung_message pump_event
     \<Rightarrow> (axum_message pump_state \<times> axum_message list) option" where
  "b2c_step num Receiving (Received item) =
     (case item of
        Stream_End \<Rightarrow> Some (Closing, [])
      | Stream_Error \<Rightarrow> Some (Closing, [])
      | Stream_Msg msg \<Rightarrow>
          (let is_close = is_tung_close msg
           in case tungstenite_to_axum num msg of
                Some a_msg \<Rightarrow> Some (Sending a_msg is_close, [])
              | None \<Rightarrow> Some (if is_close then Closing else Receiving, [])))"
| "b2c_step num (Sending a_msg is_close) (Sent ok) =
     (if \<not> ok then Some (Closing, [])
      else Some (if is_close then Closing else Receiving, [a_msg]))"
| "b2c_step num Closing Sink_Closed = Some (Finished, [])"
| "b2c_step num s e = None"

text \<open>
  The session after a successful connection: the events of the two pumps in the order in which they
  happen. \<open>select!\<close> polls both until one of them has completed, which includes the sending of a close
  frame and the closing of its sink; then it drops the other in whatever state that is, and no event
  is possible any more.
\<close>

datatype 'code ws_event = On_C2b "axum_message pump_event" | On_B2c "'code tung_message pump_event"

record 'code ws_log =
  wl_c2b :: "'code tung_message pump_state"
  wl_b2c :: "axum_message pump_state"
  wl_to_backend :: "'code tung_message list"
  wl_to_client :: "axum_message list"

definition ws_over :: "'code ws_log \<Rightarrow> bool" where
  "ws_over l \<longleftrightarrow> wl_c2b l = Finished \<or> wl_b2c l = Finished"

fun ws_step :: "(u16 \<Rightarrow> 'code) \<Rightarrow> ('code \<Rightarrow> u16) \<Rightarrow> 'code ws_log \<Rightarrow> 'code ws_event \<Rightarrow> 'code ws_log option" where
  "ws_step code num l (On_C2b e) =
     (if ws_over l then None
      else map_option (\<lambda>(s, out). l\<lparr>wl_c2b := s, wl_to_backend := wl_to_backend l @ out\<rparr>) (c2b_step code (wl_c2b l) e))"
| "ws_step code num l (On_B2c e) =
     (if ws_over l then None
      else map_option (\<lambda>(s, out). l\<lparr>wl_b2c := s, wl_to_client := wl_to_client l @ out\<rparr>) (b2c_step num (wl_b2c l) e))"

fun ws_pump ::
  "(u16 \<Rightarrow> 'code) \<Rightarrow> ('code \<Rightarrow> u16) \<Rightarrow> 'code ws_event list \<Rightarrow> 'code ws_log \<Rightarrow> 'code ws_log option" where
  "ws_pump code num [] l = Some l"
| "ws_pump code num (e # es) l = Option.bind (ws_step code num l e) (ws_pump code num es)"

definition ws_log_empty :: "'code ws_log" where
  "ws_log_empty = \<lparr>wl_c2b = Receiving, wl_b2c = Receiving, wl_to_backend = [], wl_to_client = []\<rparr>"

text \<open>The backend connection: refused, timed out, or made.\<close>

datatype ws_connect = Connect_Failed string | Connect_Timed_Out | Connected

definition MAX_WS_MESSAGE_SIZE :: nat where
  "MAX_WS_MESSAGE_SIZE = 10 * 1024 * 1024"

definition MAX_WS_FRAME_SIZE :: nat where
  "MAX_WS_FRAME_SIZE = 10 * 1024 * 1024"

text \<open>The limits handed to axum for the client's side and to tungstenite for the backend's.\<close>

record ws_limits =
  wm_max_message_size :: nat
  wm_max_frame_size :: nat

definition ws_config :: ws_limits where
  "ws_config = \<lparr>wm_max_message_size = MAX_WS_MESSAGE_SIZE, wm_max_frame_size = MAX_WS_FRAME_SIZE\<rparr>"

definition proxy_websocket ::
  "(string \<Rightarrow> ws_limits \<Rightarrow> u64 \<Rightarrow> ws_connect) \<Rightarrow> (u16 \<Rightarrow> 'code) \<Rightarrow> ('code \<Rightarrow> u16) \<Rightarrow> string \<Rightarrow> u64
     \<Rightarrow> 'code ws_event list \<Rightarrow> 'code ws_log option" where
  "proxy_websocket connect code num backend_url connect_timeout_secs events =
     (case normalize_ws_url backend_url of
        Inl e \<Rightarrow> Some ws_log_empty
      | Inr url \<Rightarrow>
          (case connect url ws_config connect_timeout_secs of
             Connect_Failed e \<Rightarrow> Some ws_log_empty
           | Connect_Timed_Out \<Rightarrow> Some ws_log_empty
           | Connected \<Rightarrow> ws_pump code num events ws_log_empty))"

text \<open>
  \<open>on_upgrade\<close> runs the session once the client has switched. What happens in it depends on the limits the two
  streams were opened with, the client's first.
\<close>

definition handle_websocket_upgrade ::
  "(ws_limits \<Rightarrow> ws_limits \<Rightarrow> 'code ws_event list) \<Rightarrow> (string \<Rightarrow> ws_limits \<Rightarrow> u64 \<Rightarrow> ws_connect)
     \<Rightarrow> (u16 \<Rightarrow> 'code) \<Rightarrow> ('code \<Rightarrow> u16) \<Rightarrow> string \<Rightarrow> u64 \<Rightarrow> 'code ws_log option" where
  "handle_websocket_upgrade streams connect code num backend_url connect_timeout_secs =
     (let client_limits = \<lparr>wm_max_message_size = MAX_WS_MESSAGE_SIZE, wm_max_frame_size = MAX_WS_FRAME_SIZE\<rparr>
      in proxy_websocket connect code num backend_url connect_timeout_secs (streams client_limits ws_config))"

subsection \<open>The interface of a pump\<close>

text \<open>The messages a stream has yielded, in order.\<close>

fun messages :: "'m pump_event list \<Rightarrow> 'm list" where
  "messages [] = []"
| "messages (Received (Stream_Msg m) # es) = m # messages es"
| "messages (e # es) = messages es"

lemma messages_append [simp]: "messages (es @ es') = messages es @ messages es'"
  by (induction es rule: messages.induct) simp_all

lemma last_filter_last: "xs \<noteq> [] \<Longrightarrow> P (last xs) \<Longrightarrow> filter P xs \<noteq> [] \<and> last (filter P xs) = last xs"
  by (cases xs rule: rev_cases) simp_all

lemma list_all_butlast: "xs \<noteq> [] \<Longrightarrow> list_all P xs = (list_all P (butlast xs) \<and> P (last xs))"
  by (cases xs rule: rev_cases) simp_all

text \<open>
  Each direction is one step function. \<open>carried\<close> says what became of the messages: all of
  them were passed on, in order, but for the last, which may still be under way or may have failed.
  Nothing is read after a close, and a pump leaves its loop at the end of the stream, at an error, at a failed
  send, or having passed a close on.
\<close>

definition stream_over :: "'a pump_event list \<Rightarrow> bool" where
  "stream_over es \<longleftrightarrow> Received Stream_End \<in> set es \<or> Received Stream_Error \<in> set es"

definition carried ::
  "('a \<Rightarrow> 'b \<Rightarrow> bool) \<Rightarrow> ('a \<Rightarrow> bool) \<Rightarrow> 'a pump_event list \<Rightarrow> 'a list \<Rightarrow> 'b list \<Rightarrow> 'b pump_state \<Rightarrow> bool" where
  "carried same close es ms out s \<longleftrightarrow>
     list_all (\<lambda>m. \<not> close m) (butlast ms) \<and>
     (case s of
        Receiving \<Rightarrow>
          list_all2 same ms out \<and> list_all (\<lambda>m. \<not> close m) ms \<and> \<not> stream_over es \<and> Sent False \<notin> set es
      | Sending x is_close \<Rightarrow> list_all2 same ms (out @ [x]) \<and> \<not> stream_over es \<and> Sent False \<notin> set es
      | s \<Rightarrow>
          Sent False \<in> set es \<and> (\<exists>x. list_all2 same ms (out @ [x])) \<or>
          list_all2 same ms out \<and> (stream_over es \<or> ms \<noteq> [] \<and> close (last ms)))"

text \<open>The event a suspended pump waits for.\<close>

fun awaited_by :: "'b pump_state \<Rightarrow> 'a pump_event \<Rightarrow> bool" where
  "awaited_by Receiving (Received item) = True"
| "awaited_by (Sending x is_close) (Sent ok) = True"
| "awaited_by Closing Sink_Closed = True"
| "awaited_by s e = False"

locale frame_pump =
  fixes convert :: "'a \<Rightarrow> 'b option" and closing :: "'a \<Rightarrow> bool"
    and step :: "'b pump_state \<Rightarrow> 'a pump_event \<Rightarrow> ('b pump_state \<times> 'b list) option"
  assumes step_over: "item \<in> {Stream_End, Stream_Error} \<Longrightarrow> step Receiving (Received item) = Some (Closing, [])"
    and step_msg: "step Receiving (Received (Stream_Msg m)) =
      Some (case convert m of Some x \<Rightarrow> Sending x (closing m) | None \<Rightarrow> Receiving, [])"
    and step_sent: "step (Sending x c) (Sent ok) =
      Some (if ok \<and> \<not> c then Receiving else Closing, if ok then [x] else [])"
    and step_closed: "step Closing Sink_Closed = Some (Finished, [])"
    and step_possible: "(step s e \<noteq> None) = awaited_by s e"
    and close_converts: "closing m \<Longrightarrow> convert m \<noteq> None"
begin

fun pump :: "'b pump_state \<Rightarrow> 'a pump_event list \<Rightarrow> ('b pump_state \<times> 'b list) option" where
  "pump s [] = Some (s, [])"
| "pump s (e # es) =
     Option.bind (step s e) (\<lambda>(s', out). map_option (map_prod id (append out)) (pump s' es))"

lemma pump_snoc:
  "pump s (es @ [e]) = Option.bind (pump s es) (\<lambda>(s', out). map_option (map_prod id (append out)) (step s' e))"
proof (induction es arbitrary: s)
  case (Cons e' es)
  then show ?case
    by (cases "step s e'"; cases "pump (fst (the (step s e'))) es")
      (auto simp: option.map_comp prod.map_comp comp_def append_assoc [symmetric] simp del: append_assoc split: prod.splits)
qed (auto simp: map_prod_def option.map_ident split: option.splits prod.splits intro!: option.map_ident_strong [symmetric])

text \<open>What the state of a pump says of the past: nothing was lost on the way to it.\<close>

definition past :: "'a pump_event list \<Rightarrow> 'b list \<Rightarrow> 'b pump_state \<Rightarrow> bool" where
  "past es out s \<longleftrightarrow>
     carried (\<lambda>m x. convert m = Some x) closing es (filter (\<lambda>m. convert m \<noteq> None) (messages es)) out s \<and>
     (\<forall>x c. s = Sending x c \<longrightarrow> messages es \<noteq> [] \<and> convert (last (messages es)) = Some x \<and> c = closing (last (messages es)))"

lemma past_step:
  assumes "past es out s" "step s e = Some (s', new)"
  shows "past (es @ [e]) (out @ new) s'"
proof -
  from assms(2) step_possible [of s e]
  consider (over) item where "s = Receiving" "e = Received item" "item \<in> {Stream_End, Stream_Error}"
    | (msg) m where "s = Receiving" "e = Received (Stream_Msg m)"
    | (sent) x c ok where "s = Sending x c" "e = Sent ok"
    | (closed) "s = Closing" "e = Sink_Closed"
    by (cases s; cases e; cases "case e of Received item \<Rightarrow> item") auto
  then show ?thesis
  proof cases
    case over
    then show ?thesis using assms step_over [of item]
      by (auto simp: past_def carried_def stream_over_def)
  next
    case msg
    then show ?thesis using assms step_msg [of m] close_converts [of m]
      by (auto simp: past_def carried_def stream_over_def intro!: list_all2_appendI split: option.splits)
  next
    case sent
    have "filter (\<lambda>m. convert m \<noteq> None) (messages es) \<noteq> []"
      "last (filter (\<lambda>m. convert m \<noteq> None) (messages es)) = last (messages es)"
      using assms(1) sent last_filter_last [of "messages es" "\<lambda>m. convert m \<noteq> None"] by (auto simp: past_def)
    then show ?thesis using sent assms step_sent [of x c ok]
      by (auto simp: past_def carried_def stream_over_def list_all_butlast split: if_splits)
  next
    case closed
    then show ?thesis using assms step_closed
      by (auto simp: past_def carried_def stream_over_def)
  qed
qed

lemma pump_past:
  assumes "pump Receiving es = Some (s, out)"
  shows "past es out s"
  using assms
proof (induction es arbitrary: s out rule: rev_induct)
  case Nil
  then show ?case by (simp add: past_def carried_def stream_over_def)
next
  case (snoc e es)
  then obtain s0 out0 new where "pump Receiving es = Some (s0, out0)" "step s0 e = Some (s, new)" "out = out0 @ new"
    by (auto simp: pump_snoc bind_eq_Some_conv)
  then show ?case using snoc.IH past_step by simp
qed

end

interpretation client_pump: frame_pump "axum_to_tungstenite code" is_axum_close "c2b_step code"
  for code :: "u16 \<Rightarrow> 'code"
proof unfold_locales
  fix m assume "is_axum_close m"
  then show "axum_to_tungstenite code m \<noteq> None" by (cases m) simp_all
next
  fix s :: "'code tung_message pump_state" and e
  show "(c2b_step code s e \<noteq> None) = awaited_by s e"
    by (cases s; cases e) (auto simp: Let_def split: stream_item.split option.split)
next
  fix m
  show "c2b_step code Receiving (Received (Stream_Msg m)) =
    Some (case axum_to_tungstenite code m of Some x \<Rightarrow> Sending x (is_axum_close m) | None \<Rightarrow> Receiving, [])"
    by (cases m) simp_all
qed auto

interpretation backend_pump: frame_pump "tungstenite_to_axum num" is_tung_close "b2c_step num"
  for num :: "'code \<Rightarrow> u16"
proof unfold_locales
  fix m :: "'code tung_message"
  assume "is_tung_close m"
  then show "tungstenite_to_axum num m \<noteq> None" by (cases m) simp_all
next
  fix s :: "axum_message pump_state" and e :: "'code tung_message pump_event"
  show "(b2c_step num s e \<noteq> None) = awaited_by s e"
    by (cases s; cases e) (auto simp: Let_def split: stream_item.split option.split)
next
  fix m :: "'code tung_message"
  show "b2c_step num Receiving (Received (Stream_Msg m)) =
    Some (case tungstenite_to_axum num m of Some x \<Rightarrow> Sending x (is_tung_close m) | None \<Rightarrow> Receiving, [])"
    by (cases m) simp_all
qed auto

subsection \<open>Messages survive the crossing\<close>

text \<open>
  A message of the client, converted for the backend and echoed back, is the same message: text,
  binary, ping and pong payloads, and the code and reason of a close, provided tungstenite's close
  codes represent every number.
\<close>

lemma ws_message_round_trip:
  assumes "\<And>c. num (code c) = c"
  shows "Option.bind (axum_to_tungstenite code m) (tungstenite_to_axum num) = Some m"
proof (cases m)
  case (AClose f)
  then show ?thesis using assms by (cases f) simp_all
qed simp_all

text \<open>
  When a message of axum and one of tungstenite are the same message, given which numbers and close codes
  are: kind and payload agree, and so do the presence, code and reason of a close frame.
\<close>

inductive same_message :: "(u16 \<Rightarrow> 'code \<Rightarrow> bool) \<Rightarrow> axum_message \<Rightarrow> 'code tung_message \<Rightarrow> bool"
  for same_code where
  "same_message same_code (AText s) (TText s)"
| "same_message same_code (ABinary b) (TBinary b)"
| "same_message same_code (APing b) (TPing b)"
| "same_message same_code (APong b) (TPong b)"
| "same_message same_code (AClose None) (TClose None)"
| "same_code n c \<Longrightarrow>
     same_message same_code (AClose (Some \<lparr>ac_code = n, ac_reason = r\<rparr>)) (TClose (Some \<lparr>tc_code = c, tc_reason = r\<rparr>))"

inductive_simps same_message_simps [simp]:
  "same_message same_code (AText s) t" "same_message same_code (ABinary b) t" "same_message same_code (APing b) t"
  "same_message same_code (APong b) t" "same_message same_code (AClose f) t"
  "same_message same_code a (TText s)" "same_message same_code a (TBinary b)" "same_message same_code a (TPing b)"
  "same_message same_code a (TPong b)" "same_message same_code a (TClose f')" "same_message same_code a (TFrame b)"

lemma axum_to_tungstenite_same: "axum_to_tungstenite code a = Some t \<Longrightarrow> same_message (\<lambda>n c. c = code n) a t"
proof (cases a)
  case (AClose f)
  then show "axum_to_tungstenite code a = Some t \<Longrightarrow> same_message (\<lambda>n c. c = code n) a t"
    by (cases f; cases "the f") auto
qed auto

lemma tungstenite_to_axum_same: "tungstenite_to_axum num t = Some a \<Longrightarrow> same_message (\<lambda>n c. n = num c) a t"
proof (cases t)
  case (TClose f)
  then show "tungstenite_to_axum num t = Some a \<Longrightarrow> same_message (\<lambda>n c. n = num c) a t"
    by (cases f; cases "the f") auto
qed auto

lemma conversions_total:
  "axum_to_tungstenite code a \<noteq> None" "(tungstenite_to_axum num t \<noteq> None) = (\<forall>b. t \<noteq> TFrame b)"
  "is_axum_close a = (\<exists>f. a = AClose f)" "is_tung_close t = (\<exists>f. t = TClose f)"
  by (cases a; cases t; simp)+

lemma carried_mono:
  assumes "carried same close es ms out s" "\<And>m x. same m x \<Longrightarrow> same' m x"
  shows "carried same' close es ms out s"
proof -
  have "list_all2 same xs ys \<Longrightarrow> list_all2 same' xs ys" for xs ys
    by (erule list_all2_mono) (rule assms(2))
  then show ?thesis using assms(1) by (fastforce simp: carried_def split: pump_state.splits)
qed

subsection \<open>Sessions\<close>

text \<open>The events of either pump.\<close>

fun c2b_events :: "'code ws_event list \<Rightarrow> axum_message pump_event list" where
  "c2b_events [] = []"
| "c2b_events (On_C2b e # es) = e # c2b_events es"
| "c2b_events (On_B2c e # es) = c2b_events es"

fun b2c_events :: "'code ws_event list \<Rightarrow> 'code tung_message pump_event list" where
  "b2c_events [] = []"
| "b2c_events (On_C2b e # es) = b2c_events es"
| "b2c_events (On_B2c e # es) = e # b2c_events es"

lemma events_append [simp]:
  "c2b_events (es @ es') = c2b_events es @ c2b_events es'" "b2c_events (es @ es') = b2c_events es @ b2c_events es'"
  by (induction es rule: c2b_events.induct) simp_all

lemma ws_pump_append: "ws_pump code num (es @ es') l = Option.bind (ws_pump code num es l) (ws_pump code num es')"
  by (induction es arbitrary: l) (simp_all cong: bind_option_cong)

lemma ws_pump_Nil: "ws_pump code num [] = Some"
  by (simp add: fun_eq_iff)

lemma ws_pump_goes_on:
  assumes "ws_pump code num es l0 = Some l"
  shows "(ws_pump code num (es @ [On_C2b c]) l0 \<noteq> None) =
      (awaited_by (wl_c2b l) c \<and> wl_c2b l \<noteq> Finished \<and> wl_b2c l \<noteq> Finished) \<and>
    (ws_pump code num (es @ [On_B2c b]) l0 \<noteq> None) =
      (awaited_by (wl_b2c l) b \<and> wl_c2b l \<noteq> Finished \<and> wl_b2c l \<noteq> Finished)"
  using assms client_pump.step_possible [of code "wl_c2b l" c] backend_pump.step_possible [of num "wl_b2c l" b]
  by (auto simp add: ws_pump_append ws_pump_Nil ws_over_def simp del: ws_pump.simps(1))

lemma ws_pump_projects:
  assumes "ws_pump code num es ws_log_empty = Some l"
  shows "client_pump.pump code Receiving (c2b_events es) = Some (wl_c2b l, wl_to_backend l) \<and>
    backend_pump.pump num Receiving (b2c_events es) = Some (wl_b2c l, wl_to_client l)"
  using assms
proof (induction es arbitrary: l rule: rev_induct)
  case Nil
  then show ?case by (auto simp: ws_log_empty_def)
next
  case (snoc e es)
  then obtain l0 where "ws_pump code num es ws_log_empty = Some l0" "ws_step code num l0 e = Some l"
    by (auto simp: ws_pump_append bind_eq_Some_conv)
  then show ?case using snoc.IH [of l0]
    by (cases e) (auto simp: client_pump.pump_snoc backend_pump.pump_snoc split: if_splits)
qed

text \<open>
  C35: what a WebSocket session carries, in every run: however the events of the two directions interleave,
  whatever fails, and wherever it is cut off. The backend has got the client's messages and the client the
  backend's (raw frames apart), the same and in order, close frames with their code and reason included; only
  the last one read may be missing, which is then being sent or failed to be sent. Nothing is read after
  a close. A direction stops only at the end of its stream, at an error, or having passed a close on. Once one
  direction has closed its sink the session is over and nothing more happens in either.
\<close>

theorem ws_session_carries:
  assumes "normalize_ws_url url = Inr u" "connect u ws_config secs = Connected"
    "proxy_websocket connect code num url secs events = Some l"
  shows "carried (same_message (\<lambda>n c. c = code n)) (\<lambda>m. \<exists>f. m = AClose f) (c2b_events events)
      (messages (c2b_events events)) (wl_to_backend l) (wl_c2b l) \<and>
    carried (\<lambda>t a. same_message (\<lambda>n c. n = num c) a t) (\<lambda>m. \<exists>f. m = TClose f) (b2c_events events)
      (filter (\<lambda>m. \<forall>b. m \<noteq> TFrame b) (messages (b2c_events events))) (wl_to_client l) (wl_b2c l) \<and>
    (proxy_websocket connect code num url secs (events @ [On_C2b c]) \<noteq> None) =
      (awaited_by (wl_c2b l) c \<and> wl_c2b l \<noteq> Finished \<and> wl_b2c l \<noteq> Finished) \<and>
    (proxy_websocket connect code num url secs (events @ [On_B2c b]) \<noteq> None) =
      (awaited_by (wl_b2c l) b \<and> wl_c2b l \<noteq> Finished \<and> wl_b2c l \<noteq> Finished)"
proof -
  have run: "proxy_websocket connect code num url secs es = ws_pump code num es ws_log_empty" for es
    using assms(1,2) by (simp add: proxy_websocket_def)
  note pumps = ws_pump_projects [OF assms(3) [unfolded run]]
  have "carried (\<lambda>m x. axum_to_tungstenite code m = Some x) is_axum_close (c2b_events events)
      (messages (c2b_events events)) (wl_to_backend l) (wl_c2b l)"
    using client_pump.pump_past [of code] pumps by (auto simp: client_pump.past_def conversions_total)
  from carried_mono [OF this axum_to_tungstenite_same]
  have "carried (same_message (\<lambda>n c. c = code n)) (\<lambda>m. \<exists>f. m = AClose f) (c2b_events events)
      (messages (c2b_events events)) (wl_to_backend l) (wl_c2b l)"
    by (simp add: conversions_total(3) [abs_def])
  moreover have "carried (\<lambda>t a. same_message (\<lambda>n c. n = num c) a t) (\<lambda>m. \<exists>f. m = TClose f) (b2c_events events)
      (filter (\<lambda>m. \<forall>b. m \<noteq> TFrame b) (messages (b2c_events events))) (wl_to_client l) (wl_b2c l)"
  proof -
    have "carried (\<lambda>m x. tungstenite_to_axum num m = Some x) is_tung_close (b2c_events events)
        (filter (\<lambda>m. \<forall>b. m \<noteq> TFrame b) (messages (b2c_events events))) (wl_to_client l) (wl_b2c l)"
      using backend_pump.pump_past [of num] pumps unfolding backend_pump.past_def conversions_total(2) by blast
    from carried_mono [OF this tungstenite_to_axum_same] show ?thesis by (simp add: conversions_total(4) [abs_def])
  qed
  ultimately show ?thesis
    using ws_pump_goes_on [OF assms(3) [unfolded run], of c b] by (simp add: run)
qed

theorem ws_session_carries_witness:
  "proxy_websocket (\<lambda>_ _ _. Connected) id id ''ws://b:1'' 5
     [On_C2b (Received (Stream_Msg (ABinary [1, 2]))), On_C2b (Sent True), On_B2c (Received (Stream_Msg (TText ''ho''))),
      On_C2b (Received (Stream_Msg (AClose (Some \<lparr>ac_code = 1001, ac_reason = ''bye''\<rparr>)))), On_B2c (Sent True),
      On_C2b (Sent True), On_B2c (Received (Stream_Msg (TText ''late''))), On_C2b Sink_Closed]
   = Some \<lparr>wl_c2b = Finished, wl_b2c = Sending (AText ''late'') False,
       wl_to_backend = [TBinary [1, 2], TClose (Some \<lparr>tc_code = 1001, tc_reason = ''bye''\<rparr>)], wl_to_client = [AText ''ho'']\<rparr> \<and>
   carried (\<lambda>t a. same_message (\<lambda>n c. n = id c) a t) (\<lambda>m. \<exists>f. m = TClose f)
     [Received (Stream_Msg (TText ''ho'')), Sent True, Received (Stream_Msg (TText ''late''))]
     [TText ''ho'', TText ''late''] [AText ''ho''] (Sending (AText ''late'') False) \<and>
   proxy_websocket (\<lambda>_ _ _. Connected) id id ''ws://b:1'' 5
     ([On_C2b (Received (Stream_Msg (ABinary [1, 2]))), On_C2b (Sent True), On_B2c (Received (Stream_Msg (TText ''ho''))),
      On_C2b (Received (Stream_Msg (AClose (Some \<lparr>ac_code = 1001, ac_reason = ''bye''\<rparr>)))), On_B2c (Sent True),
      On_C2b (Sent True), On_B2c (Received (Stream_Msg (TText ''late''))), On_C2b Sink_Closed] @ [On_B2c (Sent True)]) = None"
  (is "?run = Some ?l \<and> _")
proof -
  have n: "normalize_ws_url ''ws://b:1'' = Inr ''ws://b:1''" by (simp add: normalize_ws_url_def)
  have run: "?run = Some ?l" by (simp add: proxy_websocket_def n ws_log_empty_def ws_over_def)
  from ws_session_carries [OF n _ run, where b = "Sent True"] run show ?thesis by simp
qed

subsection \<open>Sizes\<close>

fun axum_size :: "axum_message \<Rightarrow> nat" where
  "axum_size (AText s) = length s"
| "axum_size (ABinary b) = length b"
| "axum_size (APing b) = length b"
| "axum_size (APong b) = length b"
| "axum_size (AClose f) = (case f of Some c \<Rightarrow> 2 + length (ac_reason c) | None \<Rightarrow> 0)"

fun tung_size :: "'code tung_message \<Rightarrow> nat" where
  "tung_size (TText s) = length s"
| "tung_size (TBinary b) = length b"
| "tung_size (TPing b) = length b"
| "tung_size (TPong b) = length b"
| "tung_size (TClose f) = (case f of Some c \<Rightarrow> 2 + length (tc_reason c) | None \<Rightarrow> 0)"
| "tung_size (TFrame b) = length b"

text \<open>What both libraries promise of a stream opened with a limit.\<close>

fun within :: "ws_limits \<Rightarrow> ws_limits \<Rightarrow> 'code ws_event \<Rightarrow> bool" where
  "within lc lb (On_C2b (Received (Stream_Msg m))) = (axum_size m \<le> wm_max_message_size lc)"
| "within lc lb (On_B2c (Received (Stream_Msg m))) = (tung_size m \<le> wm_max_message_size lb)"
| "within lc lb e = True"

definition bounded_log :: "nat \<Rightarrow> 'code ws_log \<Rightarrow> bool" where
  "bounded_log n l \<longleftrightarrow>
     (\<forall>m \<in> set (wl_to_backend l). tung_size m \<le> n) \<and> (\<forall>m \<in> set (wl_to_client l). axum_size m \<le> n) \<and>
     (\<forall>m c. wl_c2b l = Sending m c \<longrightarrow> tung_size m \<le> n) \<and> (\<forall>m c. wl_b2c l = Sending m c \<longrightarrow> axum_size m \<le> n)"

lemma bounded_log_empty [simp]: "bounded_log n ws_log_empty"
  by (simp add: bounded_log_def ws_log_empty_def)

lemma converted_size:
  "axum_to_tungstenite code a = Some t \<Longrightarrow> tung_size t = axum_size a"
  "tungstenite_to_axum num u = Some b \<Longrightarrow> axum_size b = tung_size u"
  by (cases a; auto split: option.splits) (cases u; auto split: option.splits)

lemma c2b_step_bounded:
  assumes "c2b_step code s e = Some (s', out)" "\<And>m. e = Received (Stream_Msg m) \<Longrightarrow> axum_size m \<le> n"
    "\<And>m c. s = Sending m c \<Longrightarrow> tung_size m \<le> n"
  shows "(\<forall>m \<in> set out. tung_size m \<le> n) \<and> (\<forall>m c. s' = Sending m c \<longrightarrow> tung_size m \<le> n)"
  using assms converted_size(1) [of code]
  by (cases "(code, s, e)" rule: c2b_step.cases)
    (auto simp: Let_def split: stream_item.splits option.splits if_splits)

lemma b2c_step_bounded:
  assumes "b2c_step num s e = Some (s', out)" "\<And>m. e = Received (Stream_Msg m) \<Longrightarrow> tung_size m \<le> n"
    "\<And>m c. s = Sending m c \<Longrightarrow> axum_size m \<le> n"
  shows "(\<forall>m \<in> set out. axum_size m \<le> n) \<and> (\<forall>m c. s' = Sending m c \<longrightarrow> axum_size m \<le> n)"
  using assms converted_size(2) [of num]
  by (cases "(num, s, e)" rule: b2c_step.cases)
    (auto simp: Let_def split: stream_item.splits option.splits if_splits)

lemma ws_pump_bounded:
  assumes "\<forall>e \<in> set es. within lc lb e" "wm_max_message_size lc \<le> n" "wm_max_message_size lb \<le> n" "bounded_log n l"
    "ws_pump code num es l = Some l'"
  shows "bounded_log n l'"
  using assms(1,4,5)
proof (induction es arbitrary: l)
  case (Cons e es)
  then obtain l1 where l1: "ws_step code num l e = Some l1" "ws_pump code num es l1 = Some l'"
    by (auto simp: bind_eq_Some_conv)
  have "bounded_log n l1"
  proof (cases e)
    case (On_C2b c)
    then obtain s out where st: "c2b_step code (wl_c2b l) c = Some (s, out)"
      and l1': "l1 = l\<lparr>wl_c2b := s, wl_to_backend := wl_to_backend l @ out\<rparr>" using l1 by (auto split: if_splits)
    have "(\<forall>m \<in> set out. tung_size m \<le> n) \<and> (\<forall>m c. s = Sending m c \<longrightarrow> tung_size m \<le> n)"
      using Cons.prems On_C2b assms(2) by (intro c2b_step_bounded [OF st]) (auto simp: bounded_log_def)
    then show ?thesis using Cons.prems(2) l1' by (auto simp: bounded_log_def)
  next
    case (On_B2c b)
    then obtain s out where st: "b2c_step num (wl_b2c l) b = Some (s, out)"
      and l1': "l1 = l\<lparr>wl_b2c := s, wl_to_client := wl_to_client l @ out\<rparr>" using l1 by (auto split: if_splits)
    have "(\<forall>m \<in> set out. axum_size m \<le> n) \<and> (\<forall>m c. s = Sending m c \<longrightarrow> axum_size m \<le> n)"
      using Cons.prems On_B2c assms(3) by (intro b2c_step_bounded [OF st]) (auto simp: bounded_log_def)
    then show ?thesis using Cons.prems(2) l1' by (auto simp: bounded_log_def)
  qed
  then show ?case using Cons.IH l1(2) Cons.prems(1) by simp
qed simp

text \<open>No message larger than 10 MB crosses the proxy, in either direction.\<close>

lemma ws_messages_bounded:
  assumes "\<And>lc lb. list_all (within lc lb) (streams lc lb)"
    "handle_websocket_upgrade streams connect code num url secs = Some l"
  shows "bounded_log (10 * 1024 * 1024) l"
proof -
  have "bounded_log (10 * 1024 * 1024) l" if "ws_pump code num (streams ws_config ws_config) ws_log_empty = Some l"
    using assms(1) by (intro ws_pump_bounded [OF _ _ _ _ that, of ws_config ws_config])
      (simp_all add: list_all_iff ws_config_def MAX_WS_MESSAGE_SIZE_def)
  then show ?thesis using assms(2)
    by (auto simp: handle_websocket_upgrade_def proxy_websocket_def ws_config_def split: sum.splits ws_connect.splits)
qed

subsection \<open>URLs\<close>

lemma normalize_ws_url_schemes:
  "normalize_ws_url (''ws://'' @ r) = Inr (''ws://'' @ r)"
  "normalize_ws_url (''wss://'' @ r) = Inr (''wss://'' @ r)"
  "normalize_ws_url (''http://'' @ r) = Inr (''ws://'' @ r)"
  "normalize_ws_url (''https://'' @ r) = Inr (''wss://'' @ r)"
  by (simp_all add: normalize_ws_url_def)

text \<open>
  A backend URL that passed validation never fails to normalise: the result differs in the
  scheme only, is a WebSocket URL, and is encrypted exactly when the configured scheme was.
\<close>

lemma normalize_validated_ws_url:
  assumes "validate_ws_url url ctx = Ok ()"
  shows "\<exists>scheme rest new_scheme. url = scheme @ rest \<and> normalize_ws_url url = Inr (new_scheme @ rest) \<and>
    (scheme, new_scheme) \<in> {(''ws://'', ''ws://''), (''wss://'', ''wss://''),
      (''http://'', ''ws://''), (''https://'', ''wss://'')}"
proof -
  have "ws_url url" using assms is_ok_helpers(2) [of url ctx] by simp
  then obtain scheme where s: "scheme \<in> {''ws://'', ''wss://'', ''http://'', ''https://''}"
    and "starts_with url scheme" by (auto simp: url_with_def)
  then obtain rest where url: "url = scheme @ rest" by (auto simp: prefix_def)
  have "\<exists>new. normalize_ws_url url = Inr (new @ rest) \<and>
      (scheme, new) \<in> {(''ws://'', ''ws://''), (''wss://'', ''wss://''),
        (''http://'', ''ws://''), (''https://'', ''wss://'')}"
    unfolding url using s normalize_ws_url_schemes [of rest] by blast
  then show ?thesis using url by blast
qed

lemma ws_url_normalizes:
  assumes "ws_url url"
  shows "\<exists>u. normalize_ws_url url = Inr u \<and>
    starts_with u ''wss://'' = (starts_with url ''wss://'' \<or> starts_with url ''https://'')"
proof -
  have "validate_ws_url url [] = Ok ()" using assms is_ok_helpers(2) [of url "[]"] by (simp add: result_unit_Ok)
  then show ?thesis using normalize_validated_ws_url by fastforce
qed

end
