(* ===== verification/Listener_Runs.thy ===== *)
theory Listener_Runs
  imports Listeners
begin

section \<open>Listeners from their start to the shutdown\<close>

text \<open>
  The supervising loops together with the sessions they run (\<open>run_pull_listener\<close>, \<open>run_sub_listener\<close>,
  \<open>run_consumer_listener\<close>). An occurrence is the branch of \<open>select!\<close> that fires: the session ended, the
  delay elapsed, or shutdown was signalled. In the last case the session is dropped at the point it has
  reached, after any number of its effects; a request or an acknowledgement that was under way counts as an
  effect. A session is given by what the client library and the shared counter held for it, and by what the listener
  has done before.
\<close>

datatype 'b occurrence = Ends 'b | Waited | Signalled 'b nat

fun event_of :: "'b occurrence \<Rightarrow> listener_event" where
  "event_of (Ends b) = Session_Ended"
| "event_of Waited = Delay_Elapsed"
| "event_of (Signalled b n) = Shutdown_Signalled"

type_synonym 'b session_run = "listener_effect list \<Rightarrow> 'b \<Rightarrow> listener_effect list"

fun effects_of ::
  "'b session_run \<Rightarrow> listener_effect list \<Rightarrow> listener_state \<Rightarrow> 'b occurrence \<Rightarrow> listener_effect list" where
  "effects_of session past In_Session (Ends b) = session past b"
| "effects_of session past In_Session (Signalled b n) = take n (session past b)"
| "effects_of session past s occ = []"

fun listener_life ::
  "(listener_state \<Rightarrow> listener_event \<Rightarrow> listener_state) \<Rightarrow> 'b session_run \<Rightarrow> listener_effect list \<Rightarrow> listener_state
     \<Rightarrow> 'b occurrence list \<Rightarrow> listener_effect list \<times> listener_state" where
  "listener_life step session past s [] = ([], s)"
| "listener_life step session past s (occ # occs) =
     (let effects = effects_of session past s occ
      in map_prod ((@) effects) id (listener_life step session (past @ effects) (step s (event_of occ)) occs))"

definition run_pull_listener ::
  "zmq_pull_listener_config \<Rightarrow> ((string \<Rightarrow> string + unit) \<times> zmq_item list) occurrence list
     \<Rightarrow> listener_effect list \<times> listener_state" where
  "run_pull_listener cfg =
     listener_life pull_listener_step (\<lambda>past (bind_socket, items). run_pull_session bind_socket items cfg) [] In_Session"

definition run_sub_listener ::
  "mqtt_sub_listener_config \<Rightarrow> (mqtt_subscriber \<times> u64) occurrence list \<Rightarrow> listener_effect list \<times> listener_state" where
  "run_sub_listener cfg occs =
     (case parse_broker_url (ml_broker_url cfg) of
        Err e \<Rightarrow> ([], Stopped)
      | Ok endpoint \<Rightarrow>
          (case qos_from_u8 (ml_qos cfg) of
             Err e \<Rightarrow> ([], Stopped)
           | Ok q \<Rightarrow>
               listener_life sub_listener_step
                 (\<lambda>past (client, counter). fst (run_sub_session client counter cfg endpoint q)) [] In_Session occs))"

definition run_consumer_listener ::
  "consumer_world \<Rightarrow> amqp_consume_listener_config \<Rightarrow> (consumer_broker \<times> u64) occurrence list
     \<Rightarrow> listener_effect list \<times> listener_state" where
  "run_consumer_listener world cfg =
     listener_life consumer_listener_step
       (\<lambda>past (broker, counter). fst (run_consumer_session world past broker counter cfg)) [] In_Session"

subsection \<open>What holds of sessions holds of listeners\<close>

text \<open>
  A property of effects that survives being cut off and being put together carries over from the sessions to
  every run of the listener, whatever its interruptions.
\<close>

locale kept_by_sessions = supervised step
  for step :: "listener_state \<Rightarrow> listener_event \<Rightarrow> listener_state" +
  fixes session :: "'b session_run" and good :: "listener_effect list \<Rightarrow> listener_effect list \<Rightarrow> bool"
  assumes good_append: "good past xs \<Longrightarrow> good (past @ xs) ys \<Longrightarrow> good past (xs @ ys)"
    and good_cut: "good past xs \<Longrightarrow> good past (take n xs)"
    and session_good: "good past (session past b)"
begin

lemma good_Nil: "good past []"
  using good_cut [OF session_good, of past 0 undefined] by simp

lemma life_good: "good past (fst (listener_life step session past s occs))"
proof (induction occs arbitrary: past s)
  case Nil
  show ?case by (simp add: good_Nil)
next
  case (Cons occ occs)
  have "good past (effects_of session past s occ)"
    by (cases s; cases occ) (simp_all add: good_Nil session_good good_cut)
  then show ?case using Cons.IH by (simp add: good_append Let_def)
qed

lemma life_Stopped: "listener_life step session past Stopped occs = ([], Stopped)"
  by (induction occs arbitrary: past) (simp_all add: stay)

lemma life_append:
  "listener_life step session past s (occs @ occs') =
     (case listener_life step session past s occs of
        (effects, s') \<Rightarrow> map_prod ((@) effects) id (listener_life step session (past @ effects) s' occs'))"
proof (induction occs arbitrary: past s)
  case (Cons occ occs)
  then show ?case by (auto simp: Let_def map_prod_def split: prod.split)
qed (simp add: map_prod_def split: prod.split)

lemma life_after_signal:
  "listener_life step session past s (occs @ Signalled b n # occs') =
     listener_life step session past s (occs @ [Signalled b n])"
  by (simp add: life_append stop life_Stopped Let_def)

end

text \<open>Requests of a listener go to its configured target.\<close>

definition posts_to :: "string \<Rightarrow> listener_effect list \<Rightarrow> bool" where
  "posts_to target es \<longleftrightarrow> (\<forall>r. Post r \<in> set es \<longrightarrow> hq_url r = target \<and> hq_method r = ''POST'')"

lemma posts_to_simps [simp]:
  "posts_to target []"
  "posts_to target (xs @ ys) \<longleftrightarrow> posts_to target xs \<and> posts_to target ys"
  "posts_to target (Post r # es) \<longleftrightarrow> hq_url r = target \<and> hq_method r = ''POST'' \<and> posts_to target es"
  "\<forall>r. e \<noteq> Post r \<Longrightarrow> posts_to target (e # es) \<longleftrightarrow> posts_to target es"
  by (auto simp: posts_to_def)

lemma posts_to_take: "posts_to target xs \<Longrightarrow> posts_to target (take n xs)"
  by (auto simp: posts_to_def dest: in_set_takeD)

lemma pull_loop_posts_to: "posts_to (zl_forward_to cfg) (pull_loop cfg items)"
  by (induction cfg items rule: pull_loop.induct) (simp_all add: pull_post_def listener_post_def)

lemma sub_loop_posts_to: "posts_to (ml_forward_to cfg) (sub_loop cfg items)"
  by (induction cfg items rule: sub_loop.induct) (simp_all add: sub_post_def listener_post_def)

lemma subscribe_all_posts_to: "posts_to target (fst (subscribe_all subscribe q topics))"
  by (induction topics) (simp_all split: sum.split)

lemma acknowledge_posts_to: "posts_to target (acknowledge world past cfg d ok)"
  by (simp add: acknowledge_def Let_def split: sum.split)

lemma consumer_loop_posts_to: "posts_to (al_forward_to cfg) (consumer_loop world past cfg items)"
  by (induction world past cfg items rule: consumer_loop.induct)
    (simp_all add: handle_delivery_def acknowledge_posts_to delivery_post_def listener_post_def Let_def)

interpretation pull_confined: kept_by_sessions pull_listener_step
  "\<lambda>past (bind_socket, items). run_pull_session bind_socket items cfg" "\<lambda>past. posts_to (zl_forward_to cfg)" for cfg
  by unfold_locales
    (auto simp: run_pull_session_def pull_loop_posts_to posts_to_take split: sum.split)

interpretation sub_confined: kept_by_sessions sub_listener_step
  "\<lambda>past (client, counter). fst (run_sub_session client counter cfg endpoint q)" "\<lambda>past. posts_to (ml_forward_to cfg)"
  for cfg endpoint q
proof unfold_locales
  show "posts_to (ml_forward_to cfg) (case b of (client, counter) \<Rightarrow> fst (run_sub_session client counter cfg endpoint q))"
    for b
    using subscribe_all_posts_to [of "ml_forward_to cfg"]
    by (auto simp: run_sub_session_def Let_def sub_loop_posts_to split: prod.split bool.split)
      (metis fst_conv)+
qed (auto simp: posts_to_take)

interpretation consumer_confined: kept_by_sessions consumer_listener_step
  "\<lambda>past (broker, counter). fst (run_consumer_session world past broker counter cfg)"
  "\<lambda>past. posts_to (al_forward_to cfg)" for world cfg
  by unfold_locales
    (auto simp: run_consumer_session_def consumer_loop_posts_to posts_to_take split: sum.split prod.split)

lemma listeners_confined:
  "posts_to (zl_forward_to zc) (fst (run_pull_listener zc zs)) \<and>
   posts_to (ml_forward_to mc) (fst (run_sub_listener mc ms)) \<and>
   posts_to (al_forward_to ac) (fst (run_consumer_listener world ac as))"
proof (intro conjI)
  show "posts_to (zl_forward_to zc) (fst (run_pull_listener zc zs))"
    unfolding run_pull_listener_def by (rule pull_confined.life_good)
  show "posts_to (ml_forward_to mc) (fst (run_sub_listener mc ms))"
    by (simp add: run_sub_listener_def sub_confined.life_good split: result.split)
  show "posts_to (al_forward_to ac) (fst (run_consumer_listener world ac as))"
    unfolding run_consumer_listener_def by (rule consumer_confined.life_good)
qed

text \<open>After the signal a listener does nothing more.\<close>

lemma listeners_silent:
  "run_pull_listener zc (zs @ Signalled zb n # zs') = run_pull_listener zc (zs @ [Signalled zb n])"
  "run_sub_listener mc (ms @ Signalled mb n # ms') = run_sub_listener mc (ms @ [Signalled mb n])"
  "run_consumer_listener world ac (as @ Signalled ab n # as') = run_consumer_listener world ac (as @ [Signalled ab n])"
proof -
  show "run_pull_listener zc (zs @ Signalled zb n # zs') = run_pull_listener zc (zs @ [Signalled zb n])"
    unfolding run_pull_listener_def by (rule pull_confined.life_after_signal)
  show "run_sub_listener mc (ms @ Signalled mb n # ms') = run_sub_listener mc (ms @ [Signalled mb n])"
    unfolding run_sub_listener_def
    by (intro result.case_cong refl sub_confined.life_after_signal)
  show "run_consumer_listener world ac (as @ Signalled ab n # as') = run_consumer_listener world ac (as @ [Signalled ab n])"
    unfolding run_consumer_listener_def by (rule consumer_confined.life_after_signal)
qed

subsection \<open>Reconnecting\<close>

text \<open>
  Whatever the number of sessions and however they broke off, every message that was received is posted once
  and in order.
\<close>

lemma pull_listener_forwards:
  "fst (run_pull_listener cfg (concat (map (\<lambda>(ms, e).
      [Ends (\<lambda>_. Inr (), map Zmq_Received ms @ [Zmq_Recv_Error e]), Waited]) sessions)))
   = map (\<lambda>m. Post (pull_post cfg m)) (concat (map fst sessions))"
proof -
  have "fst (listener_life pull_listener_step (\<lambda>past (bind_socket, items). run_pull_session bind_socket items cfg) past
      In_Session (concat (map (\<lambda>(ms, e). [Ends (\<lambda>_. Inr (), map Zmq_Received ms @ [Zmq_Recv_Error e]), Waited]) sessions)))
    = map (\<lambda>m. Post (pull_post cfg m)) (concat (map fst sessions))" for past
  proof (induction sessions arbitrary: past)
    case (Cons s sessions)
    then show ?case
      using pull_loop_received [of cfg "fst s" "snd s" "[]"]
      by (cases s) (simp add: run_pull_session_def Let_def)
  qed simp
  then show ?thesis unfolding run_pull_listener_def .
qed

lemma sub_loop_received:
  "sub_loop cfg (map Sub_Publish ps @ Sub_Error e # rest) = map (\<lambda>p. Post (sub_post cfg p)) ps"
  by (induction ps) simp_all

text \<open>A subscriber asks for its topics in order, stops at the first that is refused and then posts nothing.\<close>

lemma subscribe_all_refused:
  assumes "\<forall>t \<in> set before. subscribe t q = Inr ()" "subscribe topic q = Inl e"
  shows "subscribe_all subscribe q (before @ topic # later) =
    (map (\<lambda>t. Mqtt_Subscribe t q) before @ [Mqtt_Subscribe topic q, Mqtt_Disconnect], False)"
  using assms by (induction before) simp_all

subsection \<open>Acknowledgements\<close>
















end
