(* ===== verification/Amqp_Queue.thy ===== *)
theory Amqp_Queue
  imports Listener_Runs "HOL-Library.Multiset"
begin

section \<open>Consuming a queue to its end\<close>

text \<open>
  The consumer of \<open>src/gateway/amqp.rs\<close> against a broker that gives a message out again when it was rejected with
  requeue, or when the acknowledgement or rejection did not reach it. What the
  broker does is a parameter with its documentation as \<open>requeues\<close> and \<open>redelivers\<close>: a message that is put back is
  the same message, marked as redelivered, at some place of the queue and under some new delivery tag; and when a
  connection is lost, which may be between any two deliveries, messages of the queue that were already on
  their way come back in any order, some of them marked as redelivered though they were never posted. The target
  may answer differently at every attempt. A run is what the consumer does with the deliveries it comes to handle; with
  automatic acknowledgement the broker forgets a message once it is on its way, so that there the loss of a connection
  loses messages and a run is one of a single connection.
\<close>

definition message_of :: "delivery \<Rightarrow> string \<times> string \<times> bytes" where
  "message_of d = (dl_exchange d, dl_routing_key d, dl_data d)"




text \<open>
  The message comes back if the broker was told so, or was told nothing: \<open>Settle_Error\<close> is the logged failure of
  the call. A call that failed is taken not to have reached the broker.
\<close>

fun is_settle_error :: "listener_effect \<Rightarrow> bool" where
  "is_settle_error (Settle_Error e) = True"
| "is_settle_error e = False"

definition failed_settlement :: "listener_effect list \<Rightarrow> bool" where
  "failed_settlement effects \<longleftrightarrow> list_ex is_settle_error effects"

definition comes_back :: "delivery \<Rightarrow> listener_effect list \<Rightarrow> bool" where
  "comes_back d effects \<longleftrightarrow> Nack (dl_delivery_tag d) True \<in> set effects \<or> failed_settlement effects"


definition disposed :: "(delivery \<times> listener_effect list) list \<Rightarrow> delivery list" where
  "disposed trace = map fst (filter (\<lambda>(d, effects). \<not> comes_back d effects) trace)"

definition failures :: "(delivery \<times> listener_effect list) list \<Rightarrow> nat" where
  "failures trace = length (filter (\<lambda>(d, effects). failed_settlement effects) trace)"

lemma trace_simps [simp]:
  "disposed [] = []" "failures [] = 0"
  "disposed ((d, effects) # trace) = (if comes_back d effects then [] else [d]) @ disposed trace"
  "failures ((d, effects) # trace) = of_bool (failed_settlement effects) + failures trace"
  by (simp_all add: disposed_def failures_def)

subsection \<open>The attempts that are left\<close>

definition attempts :: "delivery \<Rightarrow> nat" where
  "attempts d = (if dl_redelivered d then 1 else 2)"

definition attempts_left :: "delivery list \<Rightarrow> nat" where
  "attempts_left queue = sum_mset (image_mset attempts (mset queue))"

definition messages_of :: "delivery list \<Rightarrow> (string \<times> string \<times> bytes) multiset" where
  "messages_of queue = image_mset message_of (mset queue)"

lemma attempts_left_simps [simp]:
  "attempts_left [] = 0" "attempts_left (d # queue) = attempts d + attempts_left queue"
  by (simp_all add: attempts_left_def)

lemma messages_of_simps [simp]:
  "messages_of [] = {#}" "messages_of (d # queue) = add_mset (message_of d) (messages_of queue)"
  "messages_of (xs @ ys) = messages_of xs + messages_of ys"
  by (simp_all add: messages_of_def)










end
