(* ===== verification/Entry_Point.thy ===== *)
theory Entry_Point
  imports Lifecycle
begin

section \<open>Logging and the entry point (src/utils, src/main.rs)\<close>

text \<open>
  The initialisation of logging and the program from start to exit: load, create, start, wait for the
  signal, stop with a timeout. The tracing library's global subscriber is the list of directives it
  was installed with.
\<close>

subsection \<open>Logging (src/utils/logging.rs)\<close>

datatype console = Stdout string | Stderr string

definition logger_info :: "string \<Rightarrow> console" where
  "logger_info message = Stdout (''INFO: '' @ message)"

definition logger_error :: "string \<Rightarrow> console" where
  "logger_error message = Stderr (''ERROR: '' @ message)"

definition logger_debug :: "string \<Rightarrow> console" where
  "logger_debug message = Stdout (''DEBUG: '' @ message)"

text \<open>
  \<open>env_directives\<close> are those of the environment, \<open>directive\<close> is the parsed built-in default or the
  parser's error. An installed subscriber stays.
\<close>

definition logging_init ::
  "string list \<Rightarrow> string + string \<Rightarrow> string list option
     \<Rightarrow> unit result \<times> string list option \<times> console list" where
  "logging_init env_directives directive installed =
     (let filter1 = env_directives @ [''info''];
          (filter2, out) = (case directive of
             Inr d \<Rightarrow> (filter1 @ [d], [])
           | Inl e \<Rightarrow> (filter1, [Stderr (''WARN: ignoring invalid log directive: '' @ e)]))
      in (Ok (), case installed of Some s \<Rightarrow> Some s | None \<Rightarrow> Some filter2, out))"

text \<open>Initialising again succeeds and changes nothing.\<close>

lemma logging_init_idempotent:
  assumes "logging_init env directive installed = (res, installed', out)"
  shows "res = Ok () \<and> (\<exists>s. installed' = Some s \<and> logging_init env' directive' (Some s) = (Ok (), Some s, snd (snd (logging_init env' directive' (Some s)))))"
  using assms by (auto simp: logging_init_def Let_def split: sum.splits prod.splits option.splits)

subsection \<open>The program (src/main.rs)\<close>

definition SHUTDOWN_TIMEOUT_SECS :: nat where
  "SHUTDOWN_TIMEOUT_SECS = 30"

datatype program_event =
    Config_Loaded string u16
  | Gateway_Started
  | Signal_Received
  | Stopped_Cleanly "gateway_task list"
  | Forced_Exit

record surroundings =
  su_logging :: "unit result"
  su_read :: "string \<Rightarrow> string + string"
  su_yaml :: "string \<Rightarrow> string + gateway_config"
  su_env :: environment
  su_started_at :: nat
  su_bind :: "string \<Rightarrow> string + unit"
  su_ctrl_c :: "string + unit"
  su_join_secs :: "nat option"

text \<open>
  \<open>su_join_secs\<close> is how long the tasks take to end after the signal, if they do. The result, what
  happened in order, and the gateway as the program leaves it.
\<close>

definition main_program :: "surroundings \<Rightarrow> unit result \<times> program_event list \<times> default_gateway option" where
  "main_program su =
     (case su_logging su of
        Err e \<Rightarrow> (Err e, [], None)
      | Ok _ \<Rightarrow>
     (case load (su_read su) (su_yaml su) (su_env su) of
        Err e \<Rightarrow> (Err e, [], None)
      | Ok config \<Rightarrow>
          let loaded = Config_Loaded (gc_host config) (gc_port config) in
     (case create_gateway config (su_started_at su) of
        Err e \<Rightarrow> (Err e, [loaded], None)
      | Ok gateway \<Rightarrow>
     (case gateway_start (su_bind su) gateway of
        (Err e, gateway1) \<Rightarrow> (Err e, [loaded], Some gateway1)
      | (Ok _, gateway1) \<Rightarrow>
     (case su_ctrl_c su of
        Inl e \<Rightarrow> (Err (Io e), [loaded, Gateway_Started], Some gateway1)
      | Inr _ \<Rightarrow>
     (case gateway_stop gateway1 of
        (joined, gateway2) \<Rightarrow>
          (Ok (), [loaded, Gateway_Started, Signal_Received,
             (case su_join_secs su of
                Some s \<Rightarrow> if s < SHUTDOWN_TIMEOUT_SECS then Stopped_Cleanly joined else Forced_Exit
              | None \<Rightarrow> Forced_Exit)], Some gateway2)))))))"

lemma gateway_start_created:
  assumes "create_gateway config t = Ok g"
  shows "gateway_start bind_addr g =
    (case bind_addr (gc_host config @ '':'' @ show_nat (unat (gc_port config))) of
       Inl e \<Rightarrow> (Err (Io e), g)
     | Inr _ \<Rightarrow> (Ok (), g\<lparr>gw_runtime := \<lparr>rh_running = True, rh_server = Some Server,
         rh_metrics = Some Metrics_Ticker, rh_listeners = map Listener_Task (gc_listeners config)\<rparr>\<rparr>))"
  using assms
  by (auto simp: create_gateway_def gateway_start_def no_handles_def Let_def split: sum.splits)

text \<open>
  C10: the whole program. It exits without an error exactly when logging was set up, the configuration
  loaded, its protocols exist, its address could be bound and the wait for the signal succeeded, however the
  shutdown then goes: that the tasks take long or never end is no error. And it exits so exactly when what
  happened is this: a well-formed configuration was loaded, the gateway started, the signal came, and every task
  the gateway had started was joined if all ended within 30 seconds, while the exit was forced otherwise; the gateway
  is left told to stop and holding no task.
\<close>

theorem main_exit:
  "(fst (main_program su) = Ok () \<longleftrightarrow>
      is_ok (su_logging su) \<and>
      (\<exists>config gateway. load (su_read su) (su_yaml su) (su_env su) = Ok config \<and>
         create_gateway config (su_started_at su) = Ok gateway \<and>
         su_bind su (gc_host config @ '':'' @ show_nat (unat (gc_port config))) = Inr () \<and>
         su_ctrl_c su = Inr ())) \<and>
   (fst (main_program su) = Ok () \<longleftrightarrow>
      (\<exists>config final. load (su_read su) (su_yaml su) (su_env su) = Ok config \<and> well_formed config \<and>
         snd (main_program su) =
           ([Config_Loaded (gc_host config) (gc_port config), Gateway_Started, Signal_Received,
             (case su_join_secs su of
                Some s \<Rightarrow>
                  if s < 30
                  then Stopped_Cleanly (Server # Metrics_Ticker # map Listener_Task (gc_listeners config))
                  else Forced_Exit
              | None \<Rightarrow> Forced_Exit)], Some final) \<and>
         gateway_at_rest final \<and> gw_shutdown final))"
proof (cases "\<exists>config gateway. is_ok (su_logging su) \<and> load (su_read su) (su_yaml su) (su_env su) = Ok config \<and>
    create_gateway config (su_started_at su) = Ok gateway \<and>
    su_bind su (gc_host config @ '':'' @ show_nat (unat (gc_port config))) = Inr () \<and> su_ctrl_c su = Inr ()")
  case True
  then obtain config gateway where log: "is_ok (su_logging su)"
    and c: "load (su_read su) (su_yaml su) (su_env su) = Ok config"
    and g: "create_gateway config (su_started_at su) = Ok gateway"
    and up: "su_bind su (gc_host config @ '':'' @ show_nat (unat (gc_port config))) = Inr ()" "su_ctrl_c su = Inr ()"
    by blast
  have "well_formed config" using c by (auto simp: load_def Let_def validate_iff)
  then show ?thesis using log c g up gateway_start_created [OF g, of "su_bind su"]
    by (auto simp: main_program_def Let_def gateway_stop_def gateway_at_rest_def no_handles_def SHUTDOWN_TIMEOUT_SECS_def
        is_ok_iff split: result.splits option.split)
next
  case False
  then have "fst (main_program su) \<noteq> Ok ()" "Signal_Received \<notin> set (fst (snd (main_program su)))"
    by (auto simp: main_program_def Let_def gateway_start_created is_ok_iff split: result.splits sum.splits prod.splits)
  then show ?thesis using False by auto
qed

end
