(* ===== verification/Config_Json.thy ===== *)
theory Config_Json
  imports Config "HOL-Library.Monad_Syntax"
begin

section \<open>The JSON form of the configuration\<close>

text \<open>
  What \<open>#[derive(Serialize, Deserialize)]\<close> and the serde attributes on the types of \<open>src/config/mod.rs\<close> say:
  the admin API shows configurations as JSON and reads them back. A structure is an object of its
  fields; it is read from an object, in which unknown keys are ignored and no field may occur twice, or
  from an array of its fields in order. A field with a default may be left out. \<open>TransportConfig\<close> and
  \<open>ListenerConfig\<close> carry their variant, renamed to snake case, under the key \<open>type\<close>. Reading gives
  no result where serde reports an error; which of several errors it reports is not modelled. The
  text of the JSON and its parsing are serde\_json's.
\<close>

subsection \<open>The interface of a codec\<close>

locale codec =
  fixes ser :: "'a \<Rightarrow> json" and de :: "json \<Rightarrow> 'a option"
  assumes round_trip: "de (ser x) = Some x"
begin

lemma ser_inject: "ser x = ser y \<longleftrightarrow> x = y"
  by (metis round_trip option.inject)

end

subsection \<open>Scalars, lists and options\<close>

fun de_string :: "json \<Rightarrow> string option" where
  "de_string (JString s) = Some s"
| "de_string _ = None"

fun de_bool :: "json \<Rightarrow> bool option" where
  "de_bool (JBool b) = Some b"
| "de_bool _ = None"

definition ser_unsigned :: "'a::len word \<Rightarrow> json" where
  "ser_unsigned w = JNumber (uint w)"

fun de_unsigned :: "json \<Rightarrow> 'a::len word option" where
  "de_unsigned (JNumber i) = (if 0 \<le> i \<and> i < 2 ^ LENGTH('a) then Some (word_of_int i) else None)"
| "de_unsigned _ = None"

fun ser_option :: "('a \<Rightarrow> json) \<Rightarrow> 'a option \<Rightarrow> json" where
  "ser_option ser None = JNull"
| "ser_option ser (Some x) = ser x"

fun de_option :: "(json \<Rightarrow> 'a option) \<Rightarrow> json \<Rightarrow> 'a option option" where
  "de_option de JNull = Some None"
| "de_option de v = map_option Some (de v)"

definition ser_list :: "('a \<Rightarrow> json) \<Rightarrow> 'a list \<Rightarrow> json" where
  "ser_list ser xs = JArray (map ser xs)"

fun de_elements :: "(json \<Rightarrow> 'a option) \<Rightarrow> json list \<Rightarrow> 'a list option" where
  "de_elements de [] = Some []"
| "de_elements de (v # vs) = do { x \<leftarrow> de v; xs \<leftarrow> de_elements de vs; Some (x # xs) }"

fun de_list :: "(json \<Rightarrow> 'a option) \<Rightarrow> json \<Rightarrow> 'a list option" where
  "de_list de (JArray vs) = de_elements de vs"
| "de_list de _ = None"

subsection \<open>Structures and variants\<close>

text \<open>The fields of a structure in the order of its declaration, with what the value gives for each.\<close>

definition struct_fields :: "string list \<Rightarrow> json \<Rightarrow> json option list option" where
  "struct_fields names v =
     (case v of
        JObject kvs \<Rightarrow>
          if list_all (\<lambda>n. length (filter (\<lambda>kv. fst kv = n) kvs) \<le> 1) names
          then Some (map (map_of kvs) names) else None
      | JArray vs \<Rightarrow>
          if length vs \<le> length names
          then Some (map Some vs @ replicate (length names - length vs) None) else None
      | _ \<Rightarrow> None)"

definition required :: "(json \<Rightarrow> 'a option) \<Rightarrow> json option \<Rightarrow> 'a option" where
  "required de field = Option.bind field de"

definition defaulted :: "'a \<Rightarrow> (json \<Rightarrow> 'a option) \<Rightarrow> json option \<Rightarrow> 'a option" where
  "defaulted d de field = (case field of Some v \<Rightarrow> de v | None \<Rightarrow> Some d)"

text \<open>\<open>rename_all = "snake_case"\<close> puts an underscore before every capital letter but the first.\<close>

fun snake_from :: "bool \<Rightarrow> string \<Rightarrow> string" where
  "snake_from first [] = []"
| "snake_from first (c # cs) =
     (if c \<noteq> ascii_lower c \<and> \<not> first then [CHR ''_'', ascii_lower c] else [ascii_lower c]) @ snake_from False cs"

definition snake_case :: "string \<Rightarrow> string" where
  "snake_case variant = snake_from True variant"

fun ser_tagged :: "string \<Rightarrow> json \<Rightarrow> json" where
  "ser_tagged variant (JObject kvs) = JObject ((''type'', JString (snake_case variant)) # kvs)"
| "ser_tagged variant v = v"

fun de_tagged :: "json \<Rightarrow> (string \<times> json) option" where
  "de_tagged (JObject kvs) =
     (case filter (\<lambda>kv. fst kv = ''type'') kvs of
        [(_, JString tag)] \<Rightarrow> Some (tag, JObject (filter (\<lambda>kv. fst kv \<noteq> ''type'') kvs))
      | _ \<Rightarrow> None)"
| "de_tagged (JArray (JString tag # vs)) = Some (tag, JArray vs)"
| "de_tagged _ = None"

subsection \<open>The transports\<close>

definition ser_http_transport :: "http_transport_config \<Rightarrow> json" where
  "ser_http_transport c = JObject
     [(''url'', JString (ht_url c)),
      (''timeout_secs'', ser_unsigned (ht_timeout_secs c)),
      (''strip_prefix'', JBool (ht_strip_prefix c))]"

definition de_http_transport :: "json \<Rightarrow> http_transport_config option" where
  "de_http_transport v = do {
       fs \<leftarrow> struct_fields [''url'', ''timeout_secs'', ''strip_prefix''] v;
       url \<leftarrow> required de_string (fs ! 0);
       timeout_secs \<leftarrow> defaulted default_timeout_secs de_unsigned (fs ! 1);
       strip_prefix \<leftarrow> defaulted False de_bool (fs ! 2);
       Some \<lparr>ht_url = url, ht_timeout_secs = timeout_secs, ht_strip_prefix = strip_prefix\<rparr> }"

fun ser_zmq_pattern :: "zmq_pattern \<Rightarrow> json" where
  "ser_zmq_pattern ReqRep = JString (snake_case ''ReqRep'')"
| "ser_zmq_pattern Push = JString (snake_case ''Push'')"
| "ser_zmq_pattern PubSub = JString (snake_case ''PubSub'')"

text \<open>A variant without content is its name, or an object of its name and nothing.\<close>

fun de_variant_name :: "json \<Rightarrow> string option" where
  "de_variant_name (JString name) = Some name"
| "de_variant_name (JObject [(name, JNull)]) = Some name"
| "de_variant_name (JObject [(name, JObject [])]) = Some name"
| "de_variant_name _ = None"

definition de_zmq_pattern :: "json \<Rightarrow> zmq_pattern option" where
  "de_zmq_pattern v = do {
       name \<leftarrow> de_variant_name v;
       if name = snake_case ''ReqRep'' then Some ReqRep
       else if name = snake_case ''Push'' then Some Push
       else if name = snake_case ''PubSub'' then Some PubSub
       else None }"

definition ser_zmq_transport :: "zmq_transport_config \<Rightarrow> json" where
  "ser_zmq_transport c = JObject
     [(''address'', JString (zt_address c)),
      (''pattern'', ser_zmq_pattern (zt_pattern c)),
      (''timeout_secs'', ser_unsigned (zt_timeout_secs c)),
      (''topic'', ser_option JString (zt_topic c))]"

definition de_zmq_transport :: "json \<Rightarrow> zmq_transport_config option" where
  "de_zmq_transport v = do {
       fs \<leftarrow> struct_fields [''address'', ''pattern'', ''timeout_secs'', ''topic''] v;
       address \<leftarrow> required de_string (fs ! 0);
       pattern \<leftarrow> required de_zmq_pattern (fs ! 1);
       timeout_secs \<leftarrow> defaulted default_timeout_secs de_unsigned (fs ! 2);
       topic \<leftarrow> defaulted None (de_option de_string) (fs ! 3);
       Some \<lparr>zt_address = address, zt_pattern = pattern, zt_timeout_secs = timeout_secs, zt_topic = topic\<rparr> }"

definition ser_graphql_transport :: "graphql_transport_config \<Rightarrow> json" where
  "ser_graphql_transport c = JObject
     [(''url'', JString (gq_url c)),
      (''timeout_secs'', ser_unsigned (gq_timeout_secs c))]"

definition de_graphql_transport :: "json \<Rightarrow> graphql_transport_config option" where
  "de_graphql_transport v = do {
       fs \<leftarrow> struct_fields [''url'', ''timeout_secs''] v;
       url \<leftarrow> required de_string (fs ! 0);
       timeout_secs \<leftarrow> defaulted default_timeout_secs de_unsigned (fs ! 1);
       Some \<lparr>gq_url = url, gq_timeout_secs = timeout_secs\<rparr> }"

definition ser_grpc_transport :: "grpc_transport_config \<Rightarrow> json" where
  "ser_grpc_transport c = JObject
     [(''url'', JString (gr_url c)),
      (''timeout_secs'', ser_unsigned (gr_timeout_secs c))]"

definition de_grpc_transport :: "json \<Rightarrow> grpc_transport_config option" where
  "de_grpc_transport v = do {
       fs \<leftarrow> struct_fields [''url'', ''timeout_secs''] v;
       url \<leftarrow> required de_string (fs ! 0);
       timeout_secs \<leftarrow> defaulted default_timeout_secs de_unsigned (fs ! 1);
       Some \<lparr>gr_url = url, gr_timeout_secs = timeout_secs\<rparr> }"

definition ser_websocket_transport :: "websocket_transport_config \<Rightarrow> json" where
  "ser_websocket_transport c = JObject
     [(''url'', JString (wt_url c)),
      (''timeout_secs'', ser_unsigned (wt_timeout_secs c))]"

definition de_websocket_transport :: "json \<Rightarrow> websocket_transport_config option" where
  "de_websocket_transport v = do {
       fs \<leftarrow> struct_fields [''url'', ''timeout_secs''] v;
       url \<leftarrow> required de_string (fs ! 0);
       timeout_secs \<leftarrow> defaulted default_timeout_secs de_unsigned (fs ! 1);
       Some \<lparr>wt_url = url, wt_timeout_secs = timeout_secs\<rparr> }"

definition ser_mqtt_transport :: "mqtt_transport_config \<Rightarrow> json" where
  "ser_mqtt_transport c = JObject
     [(''broker_url'', JString (mt_broker_url c)),
      (''topic'', JString (mt_topic c)),
      (''qos'', ser_unsigned (mt_qos c)),
      (''retain'', JBool (mt_retain c)),
      (''client_id'', ser_option JString (mt_client_id c)),
      (''timeout_secs'', ser_unsigned (mt_timeout_secs c))]"

definition de_mqtt_transport :: "json \<Rightarrow> mqtt_transport_config option" where
  "de_mqtt_transport v = do {
       fs \<leftarrow> struct_fields [''broker_url'', ''topic'', ''qos'', ''retain'', ''client_id'', ''timeout_secs''] v;
       broker_url \<leftarrow> required de_string (fs ! 0);
       topic \<leftarrow> required de_string (fs ! 1);
       qos \<leftarrow> defaulted 0 de_unsigned (fs ! 2);
       retain \<leftarrow> defaulted False de_bool (fs ! 3);
       client_id \<leftarrow> defaulted None (de_option de_string) (fs ! 4);
       timeout_secs \<leftarrow> defaulted default_timeout_secs de_unsigned (fs ! 5);
       Some \<lparr>mt_broker_url = broker_url, mt_topic = topic, mt_qos = qos, mt_retain = retain, mt_client_id = client_id, mt_timeout_secs = timeout_secs\<rparr> }"

definition default_true :: bool where
  "default_true = True"

definition ser_amqp_transport :: "amqp_transport_config \<Rightarrow> json" where
  "ser_amqp_transport c = JObject
     [(''broker_url'', JString (at_broker_url c)),
      (''exchange'', JString (at_exchange c)),
      (''routing_key'', JString (at_routing_key c)),
      (''mandatory'', JBool (at_mandatory c)),
      (''persistent'', JBool (at_persistent c)),
      (''content_type'', ser_option JString (at_content_type c)),
      (''timeout_secs'', ser_unsigned (at_timeout_secs c))]"

definition de_amqp_transport :: "json \<Rightarrow> amqp_transport_config option" where
  "de_amqp_transport v = do {
       fs \<leftarrow> struct_fields [''broker_url'', ''exchange'', ''routing_key'', ''mandatory'', ''persistent'', ''content_type'', ''timeout_secs''] v;
       broker_url \<leftarrow> required de_string (fs ! 0);
       exchange \<leftarrow> defaulted [] de_string (fs ! 1);
       routing_key \<leftarrow> required de_string (fs ! 2);
       mandatory \<leftarrow> defaulted False de_bool (fs ! 3);
       persistent \<leftarrow> defaulted default_true de_bool (fs ! 4);
       content_type \<leftarrow> defaulted None (de_option de_string) (fs ! 5);
       timeout_secs \<leftarrow> defaulted default_timeout_secs de_unsigned (fs ! 6);
       Some \<lparr>at_broker_url = broker_url, at_exchange = exchange, at_routing_key = routing_key, at_mandatory = mandatory, at_persistent = persistent, at_content_type = content_type, at_timeout_secs = timeout_secs\<rparr> }"

fun ser_transport :: "transport_config \<Rightarrow> json" where
  "ser_transport (Http c) = ser_tagged ''Http'' (ser_http_transport c)"
| "ser_transport (Zmq c) = ser_tagged ''Zmq'' (ser_zmq_transport c)"
| "ser_transport (GraphQL c) = ser_tagged ''GraphQL'' (ser_graphql_transport c)"
| "ser_transport (Grpc c) = ser_tagged ''Grpc'' (ser_grpc_transport c)"
| "ser_transport (WebSocket c) = ser_tagged ''WebSocket'' (ser_websocket_transport c)"
| "ser_transport (Mqtt c) = ser_tagged ''Mqtt'' (ser_mqtt_transport c)"
| "ser_transport (Amqp c) = ser_tagged ''Amqp'' (ser_amqp_transport c)"

definition de_transport :: "json \<Rightarrow> transport_config option" where
  "de_transport v = do {
       (tag, content) \<leftarrow> de_tagged v;
       if tag = snake_case ''Http'' then map_option Http (de_http_transport content)
       else if tag = snake_case ''Zmq'' then map_option Zmq (de_zmq_transport content)
       else if tag = snake_case ''GraphQL'' then map_option GraphQL (de_graphql_transport content)
       else if tag = snake_case ''Grpc'' then map_option Grpc (de_grpc_transport content)
       else if tag = snake_case ''WebSocket'' then map_option WebSocket (de_websocket_transport content)
       else if tag = snake_case ''Mqtt'' then map_option Mqtt (de_mqtt_transport content)
       else if tag = snake_case ''Amqp'' then map_option Amqp (de_amqp_transport content)
       else None }"

subsection \<open>Routes and listeners\<close>

definition ser_route :: "route_config \<Rightarrow> json" where
  "ser_route c = JObject
     [(''path'', JString (rc_path c)),
      (''methods'', ser_list JString (rc_methods c)),
      (''transport'', ser_transport (rc_transport c))]"

definition de_route :: "json \<Rightarrow> route_config option" where
  "de_route v = do {
       fs \<leftarrow> struct_fields [''path'', ''methods'', ''transport''] v;
       path \<leftarrow> required de_string (fs ! 0);
       methods \<leftarrow> defaulted [] (de_list de_string) (fs ! 1);
       transport \<leftarrow> required de_transport (fs ! 2);
       Some \<lparr>rc_path = path, rc_methods = methods, rc_transport = transport\<rparr> }"

definition ser_zmq_pull_listener :: "zmq_pull_listener_config \<Rightarrow> json" where
  "ser_zmq_pull_listener c = JObject
     [(''bind'', JString (zl_bind c)),
      (''forward_to'', JString (zl_forward_to c))]"

definition de_zmq_pull_listener :: "json \<Rightarrow> zmq_pull_listener_config option" where
  "de_zmq_pull_listener v = do {
       fs \<leftarrow> struct_fields [''bind'', ''forward_to''] v;
       bind_addr \<leftarrow> required de_string (fs ! 0);
       forward_to \<leftarrow> required de_string (fs ! 1);
       Some \<lparr>zl_bind = bind_addr, zl_forward_to = forward_to\<rparr> }"

definition ser_mqtt_sub_listener :: "mqtt_sub_listener_config \<Rightarrow> json" where
  "ser_mqtt_sub_listener c = JObject
     [(''broker_url'', JString (ml_broker_url c)),
      (''topics'', ser_list JString (ml_topics c)),
      (''qos'', ser_unsigned (ml_qos c)),
      (''client_id'', ser_option JString (ml_client_id c)),
      (''forward_to'', JString (ml_forward_to c))]"

definition de_mqtt_sub_listener :: "json \<Rightarrow> mqtt_sub_listener_config option" where
  "de_mqtt_sub_listener v = do {
       fs \<leftarrow> struct_fields [''broker_url'', ''topics'', ''qos'', ''client_id'', ''forward_to''] v;
       broker_url \<leftarrow> required de_string (fs ! 0);
       topics \<leftarrow> required (de_list de_string) (fs ! 1);
       qos \<leftarrow> defaulted 0 de_unsigned (fs ! 2);
       client_id \<leftarrow> defaulted None (de_option de_string) (fs ! 3);
       forward_to \<leftarrow> required de_string (fs ! 4);
       Some \<lparr>ml_broker_url = broker_url, ml_topics = topics, ml_qos = qos, ml_client_id = client_id, ml_forward_to = forward_to\<rparr> }"

definition ser_amqp_consume_listener :: "amqp_consume_listener_config \<Rightarrow> json" where
  "ser_amqp_consume_listener c = JObject
     [(''broker_url'', JString (al_broker_url c)),
      (''queue'', JString (al_queue c)),
      (''consumer_tag'', ser_option JString (al_consumer_tag c)),
      (''auto_ack'', JBool (al_auto_ack c)),
      (''forward_to'', JString (al_forward_to c))]"

definition de_amqp_consume_listener :: "json \<Rightarrow> amqp_consume_listener_config option" where
  "de_amqp_consume_listener v = do {
       fs \<leftarrow> struct_fields [''broker_url'', ''queue'', ''consumer_tag'', ''auto_ack'', ''forward_to''] v;
       broker_url \<leftarrow> required de_string (fs ! 0);
       queue \<leftarrow> required de_string (fs ! 1);
       consumer_tag \<leftarrow> defaulted None (de_option de_string) (fs ! 2);
       auto_ack \<leftarrow> defaulted False de_bool (fs ! 3);
       forward_to \<leftarrow> required de_string (fs ! 4);
       Some \<lparr>al_broker_url = broker_url, al_queue = queue, al_consumer_tag = consumer_tag, al_auto_ack = auto_ack, al_forward_to = forward_to\<rparr> }"

fun ser_listener :: "listener_config \<Rightarrow> json" where
  "ser_listener (ZmqPull c) = ser_tagged ''ZmqPull'' (ser_zmq_pull_listener c)"
| "ser_listener (MqttSub c) = ser_tagged ''MqttSub'' (ser_mqtt_sub_listener c)"
| "ser_listener (AmqpConsume c) = ser_tagged ''AmqpConsume'' (ser_amqp_consume_listener c)"

definition de_listener :: "json \<Rightarrow> listener_config option" where
  "de_listener v = do {
       (tag, content) \<leftarrow> de_tagged v;
       if tag = snake_case ''ZmqPull'' then map_option ZmqPull (de_zmq_pull_listener content)
       else if tag = snake_case ''MqttSub'' then map_option MqttSub (de_mqtt_sub_listener content)
       else if tag = snake_case ''AmqpConsume'' then map_option AmqpConsume (de_amqp_consume_listener content)
       else None }"

subsection \<open>Middleware, protocols and the whole configuration\<close>

definition ser_auth :: "auth_config \<Rightarrow> json" where
  "ser_auth c = JObject
     [(''enabled'', JBool (au_enabled c)),
      (''api_keys'', ser_list JString (au_api_keys c))]"

definition de_auth :: "json \<Rightarrow> auth_config option" where
  "de_auth v = do {
       fs \<leftarrow> struct_fields [''enabled'', ''api_keys''] v;
       enabled \<leftarrow> defaulted False de_bool (fs ! 0);
       api_keys \<leftarrow> defaulted [] (de_list de_string) (fs ! 1);
       Some \<lparr>au_enabled = enabled, au_api_keys = api_keys\<rparr> }"

definition ser_rate_limit :: "rate_limit_config \<Rightarrow> json" where
  "ser_rate_limit c = JObject
     [(''enabled'', JBool (rl_enabled c)),
      (''requests_per_window'', ser_unsigned (rl_requests_per_window c)),
      (''window_secs'', ser_unsigned (rl_window_secs c))]"

definition de_rate_limit :: "json \<Rightarrow> rate_limit_config option" where
  "de_rate_limit v = do {
       fs \<leftarrow> struct_fields [''enabled'', ''requests_per_window'', ''window_secs''] v;
       enabled \<leftarrow> defaulted False de_bool (fs ! 0);
       requests_per_window \<leftarrow> defaulted default_requests_per_window de_unsigned (fs ! 1);
       window_secs \<leftarrow> defaulted default_window_secs de_unsigned (fs ! 2);
       Some \<lparr>rl_enabled = enabled, rl_requests_per_window = requests_per_window, rl_window_secs = window_secs\<rparr> }"

definition ser_logging :: "logging_config \<Rightarrow> json" where
  "ser_logging c = JObject
     [(''enabled'', JBool (lg_enabled c))]"

definition de_logging :: "json \<Rightarrow> logging_config option" where
  "de_logging v = do {
       fs \<leftarrow> struct_fields [''enabled''] v;
       enabled \<leftarrow> defaulted False de_bool (fs ! 0);
       Some \<lparr>lg_enabled = enabled\<rparr> }"

definition ser_middleware :: "middleware_section_config \<Rightarrow> json" where
  "ser_middleware c = JObject
     [(''auth'', ser_auth (ms_auth c)),
      (''rate_limit'', ser_rate_limit (ms_rate_limit c)),
      (''logging'', ser_logging (ms_logging c))]"

definition de_middleware :: "json \<Rightarrow> middleware_section_config option" where
  "de_middleware v = do {
       fs \<leftarrow> struct_fields [''auth'', ''rate_limit'', ''logging''] v;
       auth \<leftarrow> defaulted \<lparr>au_enabled = False, au_api_keys = []\<rparr> de_auth (fs ! 0);
       rate_limit \<leftarrow> defaulted default_rate_limit_config de_rate_limit (fs ! 1);
       logging \<leftarrow> defaulted \<lparr>lg_enabled = False\<rparr> de_logging (fs ! 2);
       Some \<lparr>ms_auth = auth, ms_rate_limit = rate_limit, ms_logging = logging\<rparr> }"

text \<open>\<open>to_value\<close> is how serde\_json builds the \<open>Value\<close> of a protocol's settings.\<close>

definition ser_protocol :: "protocol_config \<Rightarrow> json" where
  "ser_protocol c = JObject
     [(''name'', JString (pc_name c)),
      (''enabled'', JBool (pc_enabled c)),
      (''settings'', pc_settings c)]"

definition de_protocol :: "(json \<Rightarrow> json) \<Rightarrow> json \<Rightarrow> protocol_config option" where
  "de_protocol to_value v = do {
       fs \<leftarrow> struct_fields [''name'', ''enabled'', ''settings''] v;
       name \<leftarrow> required de_string (fs ! 0);
       enabled \<leftarrow> required de_bool (fs ! 1);
       settings \<leftarrow> required (Some \<circ> to_value) (fs ! 2);
       Some \<lparr>pc_name = name, pc_enabled = enabled, pc_settings = settings\<rparr> }"

definition ser_gateway :: "gateway_config \<Rightarrow> json" where
  "ser_gateway c = JObject
     [(''port'', ser_unsigned (gc_port c)),
      (''host'', JString (gc_host c)),
      (''protocols'', ser_list ser_protocol (gc_protocols c)),
      (''routes'', ser_list ser_route (gc_routes c)),
      (''listeners'', ser_list ser_listener (gc_listeners c)),
      (''middleware'', ser_middleware (gc_middleware c))]"

definition de_gateway :: "(json \<Rightarrow> json) \<Rightarrow> json \<Rightarrow> gateway_config option" where
  "de_gateway to_value v = do {
       fs \<leftarrow> struct_fields [''port'', ''host'', ''protocols'', ''routes'', ''listeners'', ''middleware''] v;
       port \<leftarrow> required de_unsigned (fs ! 0);
       host \<leftarrow> required de_string (fs ! 1);
       protocols \<leftarrow> required (de_list (de_protocol to_value)) (fs ! 2);
       routes \<leftarrow> defaulted [] (de_list de_route) (fs ! 3);
       listeners \<leftarrow> defaulted [] (de_list de_listener) (fs ! 4);
       middleware \<leftarrow> defaulted default_middleware de_middleware (fs ! 5);
       Some \<lparr>gc_port = port, gc_host = host, gc_protocols = protocols, gc_routes = routes, gc_listeners = listeners, gc_middleware = middleware\<rparr> }"

subsection \<open>Every codec reads what it writes\<close>

named_theorems serde \<open>definitions of the codecs, for evaluation\<close>

declare struct_fields_def [serde] required_def [serde] defaulted_def [serde]

text \<open>The names of the variants as they are written.\<close>

lemma snake_case_variants [serde]:
  "snake_case ''Http'' = ''http''" "snake_case ''Zmq'' = ''zmq''" "snake_case ''GraphQL'' = ''graph_q_l''"
  "snake_case ''Grpc'' = ''grpc''" "snake_case ''WebSocket'' = ''web_socket''" "snake_case ''Mqtt'' = ''mqtt''"
  "snake_case ''Amqp'' = ''amqp''"
  "snake_case ''ReqRep'' = ''req_rep''" "snake_case ''Push'' = ''push''" "snake_case ''PubSub'' = ''pub_sub''"
  "snake_case ''ZmqPull'' = ''zmq_pull''" "snake_case ''MqttSub'' = ''mqtt_sub''"
  "snake_case ''AmqpConsume'' = ''amqp_consume''"
  by code_simp+

interpretation string_codec: codec JString de_string
  by unfold_locales simp

interpretation bool_codec: codec JBool de_bool
  by unfold_locales simp

interpretation unsigned_codec: codec ser_unsigned "de_unsigned :: json \<Rightarrow> 'a::len word option"
  by unfold_locales (simp add: ser_unsigned_def)

lemma de_option_other: "v \<noteq> JNull \<Longrightarrow> de_option de v = map_option Some (de v)"
  by (cases v) simp_all

context codec
begin

lemma elements_round_trip: "de_elements de (map ser xs) = Some xs"
  by (induction xs) (simp_all add: round_trip)

lemma list_round_trip: "de_list de (ser_list ser xs) = Some xs"
  by (simp add: ser_list_def elements_round_trip)

lemma option_round_trip:
  assumes "\<And>x. ser x \<noteq> JNull"
  shows "de_option de (ser_option ser x) = Some x"
  using assms by (cases x) (simp_all add: de_option_other round_trip)

end

interpretation strings_codec: codec "ser_list JString" "de_list de_string"
  by unfold_locales (rule string_codec.list_round_trip)

interpretation optional_codec: codec "ser_option JString" "de_option de_string"
  by unfold_locales (rule string_codec.option_round_trip, simp)

lemmas field_codecs = string_codec.round_trip bool_codec.round_trip unsigned_codec.round_trip
  strings_codec.round_trip optional_codec.round_trip

declare field_codecs [serde]

interpretation zmq_pattern_codec: codec ser_zmq_pattern de_zmq_pattern
proof
  show "de_zmq_pattern (ser_zmq_pattern x) = Some x" for x
    by (cases x) (simp_all add: de_zmq_pattern_def serde)
qed

declare zmq_pattern_codec.round_trip [serde]

interpretation http_transport_codec: codec ser_http_transport de_http_transport
  by unfold_locales (simp add: ser_http_transport_def de_http_transport_def serde)

declare http_transport_codec.round_trip [serde]

interpretation zmq_transport_codec: codec ser_zmq_transport de_zmq_transport
  by unfold_locales (simp add: ser_zmq_transport_def de_zmq_transport_def serde)

declare zmq_transport_codec.round_trip [serde]

interpretation graphql_transport_codec: codec ser_graphql_transport de_graphql_transport
  by unfold_locales (simp add: ser_graphql_transport_def de_graphql_transport_def serde)

declare graphql_transport_codec.round_trip [serde]

interpretation grpc_transport_codec: codec ser_grpc_transport de_grpc_transport
  by unfold_locales (simp add: ser_grpc_transport_def de_grpc_transport_def serde)

declare grpc_transport_codec.round_trip [serde]

interpretation websocket_transport_codec: codec ser_websocket_transport de_websocket_transport
  by unfold_locales (simp add: ser_websocket_transport_def de_websocket_transport_def serde)

declare websocket_transport_codec.round_trip [serde]

interpretation mqtt_transport_codec: codec ser_mqtt_transport de_mqtt_transport
  by unfold_locales (simp add: ser_mqtt_transport_def de_mqtt_transport_def serde)

declare mqtt_transport_codec.round_trip [serde]

interpretation amqp_transport_codec: codec ser_amqp_transport de_amqp_transport
  by unfold_locales (simp add: ser_amqp_transport_def de_amqp_transport_def serde)

declare amqp_transport_codec.round_trip [serde]

lemma de_tagged_ser:
  assumes "list_all (\<lambda>kv. fst kv \<noteq> ''type'') kvs"
  shows "de_tagged (ser_tagged variant (JObject kvs)) = Some (snake_case variant, JObject kvs)"
proof -
  have "filter (\<lambda>kv. fst kv = ''type'') kvs = []" "filter (\<lambda>kv. fst kv \<noteq> ''type'') kvs = kvs"
    using assms by (simp_all add: list_all_iff filter_empty_conv filter_id_conv)
  then show ?thesis by simp
qed

interpretation zmq_pull_listener_codec: codec ser_zmq_pull_listener de_zmq_pull_listener
  by unfold_locales (simp add: ser_zmq_pull_listener_def de_zmq_pull_listener_def serde)

declare zmq_pull_listener_codec.round_trip [serde]

interpretation mqtt_sub_listener_codec: codec ser_mqtt_sub_listener de_mqtt_sub_listener
  by unfold_locales (simp add: ser_mqtt_sub_listener_def de_mqtt_sub_listener_def serde)

declare mqtt_sub_listener_codec.round_trip [serde]

interpretation amqp_consume_listener_codec: codec ser_amqp_consume_listener de_amqp_consume_listener
  by unfold_locales (simp add: ser_amqp_consume_listener_def de_amqp_consume_listener_def serde)

declare amqp_consume_listener_codec.round_trip [serde]

lemma tagged_contents [serde]:
  "de_tagged (ser_tagged variant (ser_http_transport c1)) = Some (snake_case variant, ser_http_transport c1)"
  "de_tagged (ser_tagged variant (ser_zmq_transport c2)) = Some (snake_case variant, ser_zmq_transport c2)"
  "de_tagged (ser_tagged variant (ser_graphql_transport c3)) = Some (snake_case variant, ser_graphql_transport c3)"
  "de_tagged (ser_tagged variant (ser_grpc_transport c4)) = Some (snake_case variant, ser_grpc_transport c4)"
  "de_tagged (ser_tagged variant (ser_websocket_transport c5)) = Some (snake_case variant, ser_websocket_transport c5)"
  "de_tagged (ser_tagged variant (ser_mqtt_transport c6)) = Some (snake_case variant, ser_mqtt_transport c6)"
  "de_tagged (ser_tagged variant (ser_amqp_transport c7)) = Some (snake_case variant, ser_amqp_transport c7)"
  "de_tagged (ser_tagged variant (ser_zmq_pull_listener c8)) = Some (snake_case variant, ser_zmq_pull_listener c8)"
  "de_tagged (ser_tagged variant (ser_mqtt_sub_listener c9)) = Some (snake_case variant, ser_mqtt_sub_listener c9)"
  "de_tagged (ser_tagged variant (ser_amqp_consume_listener c10)) = Some (snake_case variant, ser_amqp_consume_listener c10)"
  by (simp_all only: ser_http_transport_def ser_zmq_transport_def ser_graphql_transport_def ser_grpc_transport_def ser_websocket_transport_def ser_mqtt_transport_def ser_amqp_transport_def
      ser_zmq_pull_listener_def ser_mqtt_sub_listener_def ser_amqp_consume_listener_def)
    (rule de_tagged_ser, simp)+

interpretation transport_codec: codec ser_transport de_transport
proof
  show "de_transport (ser_transport x) = Some x" for x
    by (cases x) (simp_all add: de_transport_def serde)
qed

declare transport_codec.round_trip [serde]

interpretation listener_codec: codec ser_listener de_listener
proof
  show "de_listener (ser_listener x) = Some x" for x
    by (cases x) (simp_all add: de_listener_def serde)
qed

interpretation route_codec: codec ser_route de_route
  by unfold_locales (simp add: ser_route_def de_route_def serde)

declare route_codec.round_trip [serde]

interpretation auth_codec: codec ser_auth de_auth
  by unfold_locales (simp add: ser_auth_def de_auth_def serde)

declare auth_codec.round_trip [serde]

interpretation rate_limit_codec: codec ser_rate_limit de_rate_limit
  by unfold_locales (simp add: ser_rate_limit_def de_rate_limit_def serde)

declare rate_limit_codec.round_trip [serde]

interpretation logging_codec: codec ser_logging de_logging
  by unfold_locales (simp add: ser_logging_def de_logging_def serde)

declare logging_codec.round_trip [serde]

interpretation middleware_codec: codec ser_middleware de_middleware
  by unfold_locales (simp add: ser_middleware_def de_middleware_def serde)

declare middleware_codec.round_trip [serde]

interpretation routes_codec: codec "ser_list ser_route" "de_list de_route"
  by unfold_locales (rule route_codec.list_round_trip)

interpretation listeners_codec: codec "ser_list ser_listener" "de_list de_listener"
  by unfold_locales (rule listener_codec.list_round_trip)

declare routes_codec.round_trip [serde] listeners_codec.round_trip [serde]

lemma protocols_round_trip:
  "\<forall>p \<in> set ps. to_value (pc_settings p) = pc_settings p \<Longrightarrow>
     de_list (de_protocol to_value) (ser_list ser_protocol ps) = Some ps"
proof (induction ps)
  case (Cons p ps)
  then show ?case by (simp add: ser_list_def ser_protocol_def de_protocol_def serde)
qed (simp add: ser_list_def)

lemma config_read_back:
  "\<forall>p \<in> set (gc_protocols c). to_value (pc_settings p) = pc_settings p \<Longrightarrow> de_gateway to_value (ser_gateway c) = Some c"
  using protocols_round_trip by (simp add: ser_gateway_def de_gateway_def serde)

text \<open>
  C26: a configuration survives its JSON form. Reading what was written gives the same configuration, with every
  field, variant and default, provided serde\_json reads the free-form settings of the protocols back as
  they were.
\<close>

theorem config_round_trip:
  assumes "\<forall>p \<in> set (gc_protocols c). to_value (pc_settings p) = pc_settings p"
  shows "de_gateway to_value (ser_gateway c) = Some c"
  using assms by (rule config_read_back)

text \<open>A configuration with a route of every transport, a listener of every kind and a protocol with settings.\<close>

definition rich_config :: gateway_config where
  "rich_config = \<lparr>gc_port = 8080, gc_host = ''0.0.0.0'',
     gc_protocols = [\<lparr>pc_name = ''http'', pc_enabled = True, pc_settings = JObject [(''port'', JNumber 8081)]\<rparr>],
     gc_routes =
       [\<lparr>rc_path = ''/h'', rc_methods = [''GET''], rc_transport =
           Http \<lparr>ht_url = ''http://h'', ht_timeout_secs = 30, ht_strip_prefix = True\<rparr>\<rparr>,
        \<lparr>rc_path = ''/z'', rc_methods = [], rc_transport =
           Zmq \<lparr>zt_address = ''h:1'', zt_pattern = PubSub, zt_timeout_secs = 1, zt_topic = Some ''t''\<rparr>\<rparr>,
        \<lparr>rc_path = ''/q'', rc_methods = [], rc_transport = GraphQL \<lparr>gq_url = ''http://q'', gq_timeout_secs = 2\<rparr>\<rparr>,
        \<lparr>rc_path = ''/g'', rc_methods = [], rc_transport = Grpc \<lparr>gr_url = ''http://g'', gr_timeout_secs = 3\<rparr>\<rparr>,
        \<lparr>rc_path = ''/w'', rc_methods = [], rc_transport = WebSocket \<lparr>wt_url = ''ws://w'', wt_timeout_secs = 4\<rparr>\<rparr>,
        \<lparr>rc_path = ''/m'', rc_methods = [], rc_transport = Mqtt \<lparr>mt_broker_url = ''mqtt://m:1'', mt_topic = ''t'',
           mt_qos = 2, mt_retain = True, mt_client_id = None, mt_timeout_secs = 5\<rparr>\<rparr>,
        \<lparr>rc_path = ''/a'', rc_methods = [], rc_transport = Amqp \<lparr>at_broker_url = ''amqp://a'', at_exchange = [],
           at_routing_key = ''k'', at_mandatory = False, at_persistent = True, at_content_type = None,
           at_timeout_secs = 6\<rparr>\<rparr>],
     gc_listeners =
       [ZmqPull \<lparr>zl_bind = ''h:2'', zl_forward_to = ''http://t''\<rparr>,
        MqttSub \<lparr>ml_broker_url = ''mqtt://m:1'', ml_topics = [''t''], ml_qos = 1, ml_client_id = Some ''c'',
          ml_forward_to = ''http://t''\<rparr>,
        AmqpConsume \<lparr>al_broker_url = ''amqp://a'', al_queue = ''q'', al_consumer_tag = None, al_auto_ack = False,
          al_forward_to = ''http://t''\<rparr>],
     gc_middleware = default_middleware\<rparr>"

theorem config_round_trip_witness: "de_gateway id (ser_gateway rich_config) = Some rich_config"
  by (rule config_round_trip) simp

subsection \<open>What may be left out\<close>






text \<open>A key that names no field changes nothing, so a misspelt section counts as left out.\<close>

lemma struct_fields_unknown:
  "k \<notin> set names \<Longrightarrow> struct_fields names (JObject (xs @ (k, v) # ys)) = struct_fields names (JObject (xs @ ys))"
proof -
  assume "k \<notin> set names"
  then have "filter (\<lambda>kv. fst kv = n) (xs @ (k, v) # ys) = filter (\<lambda>kv. fst kv = n) (xs @ ys)"
    and "map_of (xs @ (k, v) # ys) n = map_of (xs @ ys) n" if "n \<in> set names" for n
    using that by (auto simp: map_add_def split: option.splits)
  then show ?thesis by (simp add: struct_fields_def list_all_iff cong: map_cong)
qed

lemma unknown_keys_ignored:
  "k \<notin> {''port'', ''host'', ''protocols'', ''routes'', ''listeners'', ''middleware''} \<Longrightarrow>
     de_gateway to_value (JObject (xs @ (k, v) # ys)) = de_gateway to_value (JObject (xs @ ys))"
  by (simp add: de_gateway_def struct_fields_unknown)

text \<open>
  The snake-case names of two transports are not the ones in \<open>docs/configuration.md\<close>: a route written with
  the documented name is refused.
\<close>

lemma documented_names_refused:
  "de_transport (ser_tagged ''Graphql'' (ser_graphql_transport c)) = None"
  "de_transport (ser_tagged ''Websocket'' (ser_websocket_transport d)) = None"
proof -
  have "snake_case ''Graphql'' = ''graphql''" "snake_case ''Websocket'' = ''websocket''" by code_simp+
  then show "de_transport (ser_tagged ''Graphql'' (ser_graphql_transport c)) = None"
    "de_transport (ser_tagged ''Websocket'' (ser_websocket_transport d)) = None"
    by (simp_all add: de_transport_def serde)
qed

end
