(* ===== verification/Load_Gen.thy ===== *)
theory Load_Gen
  imports Http_Upstreams Float64 "HOL-Library.Multiset"
begin

section \<open>The load generator (src/bin/load\_gen.rs)\<close>

text \<open>
  The development tool that runs mock backends and sends a steady load through a gateway: its
  command line, the mock handler, the traffic pump and the statistics. The standard library's default
  hasher, whose algorithm its documentation leaves open, and the HTTP client are parameters; so is
  the order in which the workers' timers fire.
\<close>

subsection \<open>Floating-point values and their text\<close>

text \<open>A rate from the command line may be any \<open>f64\<close>; the sign of a zero makes no difference here.\<close>

datatype f64 = Finite rat | Infinity | Neg_Infinity | NaN

definition f64_of_rat :: "rat \<Rightarrow> f64" where
  "f64_of_rat q =
     (if q = 0 then Finite 0
      else let e = max (f64_exp \<bar>q\<bar>) (- 1074);
               r = of_int (round_half_even (\<bar>q\<bar> * 2 powi (- e))) * 2 powi e
           in if 2 ^ 1024 \<le> r then (if q < 0 then Neg_Infinity else Infinity)
              else Finite (if q < 0 then - r else r))"

fun f64_less :: "f64 \<Rightarrow> f64 \<Rightarrow> bool" where
  "f64_less (Finite a) (Finite b) = (a < b)"
| "f64_less (Finite a) Infinity = True"
| "f64_less Neg_Infinity (Finite b) = True"
| "f64_less Neg_Infinity Infinity = True"
| "f64_less _ _ = False"

definition all_digits :: "string \<Rightarrow> bool" where
  "all_digits s \<longleftrightarrow> list_all is_ascii_digit s"

fun split_sign :: "string \<Rightarrow> bool \<times> string" where
  "split_sign (c # s) = (if c = CHR ''-'' then (True, s) else if c = CHR ''+'' then (False, s) else (False, c # s))"
| "split_sign [] = (False, [])"

definition parse_exponent :: "string \<Rightarrow> int option" where
  "parse_exponent s =
     (case split_sign s of (neg, ds) \<Rightarrow>
        if ds \<noteq> [] \<and> all_digits ds
        then Some (if neg then - int (digits_value ds) else int (digits_value ds)) else None)"

definition parse_mantissa :: "string \<Rightarrow> (nat \<times> nat) option" where
  "parse_mantissa s =
     (let (ip, fp) = (case split_at_first CHR ''.'' s of Some p \<Rightarrow> p | None \<Rightarrow> (s, []))
      in if ip @ fp \<noteq> [] \<and> all_digits (ip @ fp) then Some (digits_value (ip @ fp), length fp) else None)"

definition parse_decimal :: "string \<Rightarrow> rat option" where
  "parse_decimal s =
     (let (m, x) = (case split_at_first CHR ''e'' (to_ascii_lowercase s) of
                      Some (m, x) \<Rightarrow> (m, parse_exponent x) | None \<Rightarrow> (s, Some 0))
      in case (parse_mantissa m, x) of
           (Some (n, k), Some x) \<Rightarrow> Some (of_nat n * 10 powi (x - int k))
         | _ \<Rightarrow> None)"

definition f64_from_str :: "string \<Rightarrow> f64 option" where
  "f64_from_str s =
     (case split_sign s of (neg, body) \<Rightarrow>
        let lower = to_ascii_lowercase body
        in if lower = ''inf'' \<or> lower = ''infinity'' then Some (if neg then Neg_Infinity else Infinity)
           else if lower = ''nan'' then Some NaN
           else map_option (\<lambda>q. f64_of_rat (if neg then - q else q)) (parse_decimal body))"

subsection \<open>The mock backend\<close>

record backend_state =
  bs_error_rate :: f64
  bs_slow_rate :: f64
  bs_slow_delay_ms :: u64
  bs_counter :: u64

definition frand :: "(u64 \<Rightarrow> u64) \<Rightarrow> u64 \<Rightarrow> rat" where
  "frand hash seed = f64_div (f64_of_nat (unat (hash seed))) (f64_of_nat (2 ^ 64 - 1))"

datatype mock_reply = Simulated_Failure | Served u64

text \<open>The reply, the delay before it in milliseconds, and the state with the counter advanced.\<close>

definition mock_handler :: "(u64 \<Rightarrow> u64) \<Rightarrow> backend_state \<Rightarrow> mock_reply \<times> u64 \<times> backend_state" where
  "mock_handler hash s =
     (let n = bs_counter s;
          s' = s\<lparr>bs_counter := n + 1\<rparr>;
          delay = (if f64_less (Finite (frand hash (n * 7))) (bs_slow_rate s) then bs_slow_delay_ms s else 0)
      in if f64_less (Finite (frand hash (n * 13 + 1))) (bs_error_rate s)
         then (Simulated_Failure, delay, s') else (Served n, delay, s'))"

subsection \<open>Traffic routes\<close>

record traffic_route =
  tr_method :: string
  tr_path :: string
  tr_body :: "string option"

definition BASE_ROUTES :: "traffic_route list" where
  "BASE_ROUTES =
    [\<lparr>tr_method = ''GET'', tr_path = ''/api/v1/users'', tr_body = None\<rparr>,
     \<lparr>tr_method = ''GET'', tr_path = ''/api/v1/products'', tr_body = None\<rparr>,
     \<lparr>tr_method = ''POST'', tr_path = ''/api/v1/orders'', tr_body = Some ''{\"item\":\"widget\",\"qty\":3}''\<rparr>,
     \<lparr>tr_method = ''GET'', tr_path = ''/api/v1/items/42'', tr_body = None\<rparr>,
     \<lparr>tr_method = ''PUT'', tr_path = ''/api/v1/items/42'', tr_body = Some ''{\"name\":\"updated\"}''\<rparr>,
     \<lparr>tr_method = ''DELETE'', tr_path = ''/api/v1/items/42'', tr_body = None\<rparr>,
     \<lparr>tr_method = ''GET'', tr_path = ''/health'', tr_body = None\<rparr>,
     \<lparr>tr_method = ''GET'', tr_path = ''/api/status'', tr_body = None\<rparr>,
     \<lparr>tr_method = ''POST'', tr_path = ''/api/events'', tr_body = Some ''{\"event\":\"click\",\"user\":1}''\<rparr>,
     \<lparr>tr_method = ''GET'', tr_path = ''/nonexistent'', tr_body = None\<rparr>]"

definition MQTT_ROUTES :: "traffic_route list" where
  "MQTT_ROUTES =
    [\<lparr>tr_method = ''POST'', tr_path = ''/mqtt/events'',
      tr_body = Some ''{\"event\":\"device.ping\",\"device_id\":\"sim-001\",\"temperature_c\":21.4}''\<rparr>]"

definition AMQP_ROUTES :: "traffic_route list" where
  "AMQP_ROUTES =
    [\<lparr>tr_method = ''POST'', tr_path = ''/amqp/events'',
      tr_body = Some ''{\"event\":\"job.created\",\"job_id\":\"job-001\",\"priority\":\"normal\"}''\<rparr>]"

subsection \<open>Command line\<close>

record load_config =
  lc_gateway :: string
  lc_rps :: u64
  lc_error_rate :: f64
  lc_slow_rate :: f64
  lc_include_mqtt :: bool
  lc_include_amqp :: bool

definition default_load_config :: load_config where
  "default_load_config =
     \<lparr>lc_gateway = ''http://127.0.0.1:8080'', lc_rps = 10, lc_error_rate = f64_of_rat (1 / 10),
      lc_slow_rate = f64_of_rat (5 / 100), lc_include_mqtt = False, lc_include_amqp = False\<rparr>"

text \<open>The loop from index \<open>i\<close> on the arguments from \<open>i\<close> on; a flag without its value is skipped.\<close>

fun parse_args_loop :: "load_config \<Rightarrow> string list \<Rightarrow> load_config" where
  "parse_args_loop cfg [] = cfg"
| "parse_args_loop cfg [arg] =
     (if arg = ''--include-mqtt'' then cfg\<lparr>lc_include_mqtt := True\<rparr>
      else if arg = ''--include-amqp'' then cfg\<lparr>lc_include_amqp := True\<rparr>
      else cfg)"
| "parse_args_loop cfg (arg # val # rest) =
     (if arg = ''--gateway'' then parse_args_loop (cfg\<lparr>lc_gateway := val\<rparr>) rest
      else if arg = ''--rps'' then
        parse_args_loop (cfg\<lparr>lc_rps :=
          (case parse_unsigned 64 val of Some n \<Rightarrow> word_of_nat n | None \<Rightarrow> 10)\<rparr>) rest
      else if arg = ''--error-rate'' then
        parse_args_loop (cfg\<lparr>lc_error_rate :=
          (case f64_from_str val of Some f \<Rightarrow> f | None \<Rightarrow> f64_of_rat (1 / 10))\<rparr>) rest
      else if arg = ''--slow-rate'' then
        parse_args_loop (cfg\<lparr>lc_slow_rate :=
          (case f64_from_str val of Some f \<Rightarrow> f | None \<Rightarrow> f64_of_rat (5 / 100))\<rparr>) rest
      else if arg = ''--include-mqtt'' then parse_args_loop (cfg\<lparr>lc_include_mqtt := True\<rparr>) (val # rest)
      else if arg = ''--include-amqp'' then parse_args_loop (cfg\<lparr>lc_include_amqp := True\<rparr>) (val # rest)
      else parse_args_loop cfg (val # rest))"

definition parse_args_from :: "string list \<Rightarrow> load_config" where
  "parse_args_from args = parse_args_loop default_load_config (drop 1 args)"

definition build_routes :: "load_config \<Rightarrow> traffic_route list" where
  "build_routes cfg = BASE_ROUTES @ (if lc_include_mqtt cfg then MQTT_ROUTES else [])
     @ (if lc_include_amqp cfg then AMQP_ROUTES else [])"

subsection \<open>The traffic pump\<close>

definition saturating_mul :: "u64 \<Rightarrow> u64 \<Rightarrow> u64" where
  "saturating_mul a b = (if unat a * unat b < 2 ^ 64 then a * b else - 1)"

definition stagger_ms :: "u64 \<Rightarrow> u64 \<Rightarrow> u64" where
  "stagger_ms rps worker_id = (let rps = max rps 1 in saturating_mul 1000 worker_id div rps)"

record pump_counters =
  pu_sent :: u64
  pu_errors :: u64

definition worker_request :: "(string \<Rightarrow> bool) \<Rightarrow> string \<Rightarrow> traffic_route \<Rightarrow> http_request" where
  "worker_request method_from_bytes gateway r =
     \<lparr>hq_method = (if method_from_bytes (tr_method r) then tr_method r else ''GET''),
      hq_url = gateway @ tr_path r, hq_timeout_secs = 10,
      hq_headers = (case tr_body r of Some b \<Rightarrow> [(''Content-Type'', ''application/json'')] | None \<Rightarrow> []),
      hq_body = (case tr_body r of Some b \<Rightarrow> as_bytes b | None \<Rightarrow> [])\<rparr>"

definition is_server_error :: "u16 \<Rightarrow> bool" where
  "is_server_error status \<longleftrightarrow> 500 \<le> status \<and> status < 600"

definition counts_as_error :: "string + http_response \<Rightarrow> bool" where
  "counts_as_error result = (case result of Inl e \<Rightarrow> True | Inr resp \<Rightarrow> is_server_error (hp_status resp))"

text \<open>One turn of a worker's loop: the request it sends, its next sequence number, the counters.\<close>

definition worker_tick ::
  "(string \<Rightarrow> bool) \<Rightarrow> http_client \<Rightarrow> string \<Rightarrow> traffic_route list \<Rightarrow> u64 \<Rightarrow> u64 \<Rightarrow> pump_counters
     \<Rightarrow> http_request \<times> u64 \<times> pump_counters" where
  "worker_tick method_from_bytes send gateway routes rps seq counters =
     (let r = routes ! (unat seq mod length routes);
          req = worker_request method_from_bytes gateway r;
          errors = (if counts_as_error (send req) then pu_errors counters + 1 else pu_errors counters)
      in (req, seq + rps, \<lparr>pu_sent = pu_sent counters + 1, pu_errors = errors\<rparr>))"

text \<open>
  The workers' sequence numbers and the counters they share; \<open>ticks\<close> is the order in which the
  timers of the workers fire.
\<close>

fun pump_run ::
  "(string \<Rightarrow> bool) \<Rightarrow> http_client \<Rightarrow> string \<Rightarrow> traffic_route list \<Rightarrow> u64 \<Rightarrow> nat list
     \<Rightarrow> (nat \<Rightarrow> u64) \<times> pump_counters \<Rightarrow> http_request list \<times> (nat \<Rightarrow> u64) \<times> pump_counters" where
  "pump_run method_from_bytes send gateway routes rps [] (seqs, counters) = ([], seqs, counters)"
| "pump_run method_from_bytes send gateway routes rps (w # ticks) (seqs, counters) =
     (case worker_tick method_from_bytes send gateway routes rps (seqs w) counters of
        (req, seq, counters') \<Rightarrow>
          map_prod (Cons req) id
            (pump_run method_from_bytes send gateway routes rps ticks (seqs(w := seq), counters')))"

definition pump_traffic ::
  "(string \<Rightarrow> bool) \<Rightarrow> http_client \<Rightarrow> string \<Rightarrow> traffic_route list \<Rightarrow> u64 \<Rightarrow> nat list
     \<Rightarrow> http_request list \<times> (nat \<Rightarrow> u64) \<times> pump_counters" where
  "pump_traffic method_from_bytes send gateway routes rps ticks =
     pump_run method_from_bytes send gateway routes (max rps 1) ticks
       (\<lambda>worker_id. word_of_nat worker_id, \<lparr>pu_sent = 0, pu_errors = 0\<rparr>)"

subsection \<open>Waiting for the gateway, and the statistics\<close>

text \<open>The number of failed probes before the first that succeeds; without one the tool keeps waiting.\<close>

fun await_gateway :: "(string + http_response) list \<Rightarrow> nat option" where
  "await_gateway [] = None"
| "await_gateway (Inr resp # probes) = Some 0"
| "await_gateway (Inl e # probes) = map_option Suc (await_gateway probes)"

record stats_line =
  sl_total :: u64
  sl_current_rps :: u64
  sl_errors :: u64
  sl_err_pct :: rat

definition stats_tick :: "pump_counters \<Rightarrow> u64 \<Rightarrow> stats_line \<times> u64" where
  "stats_tick counters last_sent =
     (let total = pu_sent counters; errs = pu_errors counters
      in (\<lparr>sl_total = total, sl_current_rps = total - last_sent, sl_errors = errs,
           sl_err_pct = (if 0 < total
             then f64_mult (f64_div (f64_of_nat (unat errs)) (f64_of_nat (unat total))) 100 else 0)\<rparr>, total))"


subsection \<open>The run\<close>

text \<open>
  \<open>main\<close> up to the statistics: the state the two mock backends share, their ports, the number of failed probes
  before the gateway answered, and what the pump sent. Without an answering gateway the tool keeps
  waiting, which is no result.
\<close>

record load_run =
  lr_backend :: backend_state
  lr_ports :: "nat list"
  lr_failed_probes :: nat
  lr_sent :: "http_request list"
  lr_counters :: pump_counters

definition probe_request :: "load_config \<Rightarrow> http_request" where
  "probe_request cfg =
     \<lparr>hq_method = ''GET'', hq_url = lc_gateway cfg @ ''/health'', hq_timeout_secs = 10, hq_headers = [], hq_body = []\<rparr>"

definition load_main ::
  "(string \<Rightarrow> bool) \<Rightarrow> http_client \<Rightarrow> string list \<Rightarrow> (string + http_response) list \<Rightarrow> nat list \<Rightarrow> load_run option" where
  "load_main method_from_bytes send args probes ticks =
     (let cfg = parse_args_from args;
          backend = \<lparr>bs_error_rate = lc_error_rate cfg, bs_slow_rate = lc_slow_rate cfg, bs_slow_delay_ms = 200, bs_counter = 0\<rparr>
      in case await_gateway probes of
           None \<Rightarrow> None
         | Some failed \<Rightarrow>
             let (reqs, _, counters) = pump_traffic method_from_bytes send (lc_gateway cfg) (build_routes cfg) (lc_rps cfg) ticks
             in Some \<lparr>lr_backend = backend, lr_ports = [9000, 9001], lr_failed_probes = failed, lr_sent = reqs, lr_counters = counters\<rparr>)"

text \<open>The shared counter gives every request to either backend a number of its own, in order.\<close>

fun mock_run :: "(u64 \<Rightarrow> u64) \<Rightarrow> nat \<Rightarrow> backend_state \<Rightarrow> mock_reply list" where
  "mock_run hash 0 s = []"
| "mock_run hash (Suc n) s = (case mock_handler hash s of (reply, delay, s') \<Rightarrow> reply # mock_run hash n s')"

lemma mock_run_numbers:
  "i < n \<Longrightarrow> mock_run hash n s ! i \<in> {Simulated_Failure, Served (bs_counter s + of_nat i)}"
proof (induction n arbitrary: i s)
  case (Suc n)
  show ?case
  proof (cases i)
    case 0
    then show ?thesis by (auto simp: mock_handler_def Let_def)
  next
    case (Suc j)
    then show ?thesis using Suc.prems Suc.IH [of j "s\<lparr>bs_counter := bs_counter s + 1\<rparr>"]
      by (auto simp: mock_handler_def Let_def algebra_simps)
  qed
qed simp

subsection \<open>The load is spread evenly over the routes\<close>

text \<open>The sequence numbers worker \<open>w\<close> of \<open>R\<close> uses in its first \<open>c\<close> turns.\<close>

definition worker_seqs :: "nat \<Rightarrow> nat \<Rightarrow> nat \<Rightarrow> nat multiset" where
  "worker_seqs R w c = mset (map (\<lambda>i. w + i * R) [0..<c])"

lemma worker_seqs_Suc [simp]: "worker_seqs R w (Suc c) = add_mset (w + c * R) (worker_seqs R w c)"
  by (simp add: worker_seqs_def)

lemma worker_seqs_0 [simp]: "worker_seqs R w 0 = {#}"
  by (simp add: worker_seqs_def)

lemma sum_singletons: "(\<Sum>w<R. {#w + a#}) = mset [a..<a + R]"
proof (induction R)
  case (Suc R)
  have "[a..<a + Suc R] = [a..<a + R] @ [R + a]"
    using upt_Suc_append [of a "a + R"] by (simp only: add_Suc_right add.commute [of R a] le_add1)
  then have "mset [a..<a + Suc R] = mset [a..<a + R] + {#R + a#}" by (simp only: mset_append mset.simps)
  then show ?case by (simp only: Suc sum.lessThan_Suc)
qed simp

lemma worker_seqs_total: "(\<Sum>w<R. worker_seqs R w k) = mset [0..<k * R]"
proof (induction k)
  case (Suc k)
  have "(\<Sum>w<R. worker_seqs R w (Suc k)) = (\<Sum>w<R. {#w + k * R#}) + (\<Sum>w<R. worker_seqs R w k)"
    by (simp add: sum.distrib [symmetric])
  also have "\<dots> = mset [k * R..<k * R + R] + mset [0..<k * R]" by (simp only: sum_singletons Suc)
  also have "\<dots> = mset [0..<k * R + R]" 
    unfolding upt_add_eq_append [OF le0, of "k * R" R] by simp
  finally show ?case by (simp add: add.commute)
qed simp

text \<open>One more turn of worker \<open>w\<close> adds its next number.\<close>

lemma worker_seqs_turn:
  assumes "w < R"
  shows "(\<Sum>v<R. worker_seqs R v ((c(w := Suc (c w))) v)) = add_mset (w + c w * R) (\<Sum>v<R. worker_seqs R v (c v))"
proof -
  have "(\<Sum>v\<in>{..<R} - {w}. worker_seqs R v ((c(w := Suc (c w))) v)) = (\<Sum>v\<in>{..<R} - {w}. worker_seqs R v (c v))"
    by (rule sum.cong) auto
  then show ?thesis using assms
    by (simp add: sum.remove [of "{..<R}" w])
qed

lemma pump_run_seqs:
  assumes "set ticks \<subseteq> {..<R}" "\<And>w. w < R \<Longrightarrow> seqs w = word_of_nat (w + c w * R)"
    and "\<And>w. w < R \<Longrightarrow> w + (c w + count_list ticks w) * R < 2 ^ 64 + R"
    and "rps = word_of_nat R"
  shows "image_mset (\<lambda>j. worker_request mb gateway (routes ! (j mod length routes)))
      (\<Sum>w<R. worker_seqs R w (c w)) + mset (fst (pump_run mb send gateway routes rps ticks (seqs, counters)))
    = image_mset (\<lambda>j. worker_request mb gateway (routes ! (j mod length routes)))
      (\<Sum>w<R. worker_seqs R w (c w + count_list ticks w))"
  using assms
proof (induction ticks arbitrary: seqs c counters)
  case Nil
  then show ?case by simp
next
  case (Cons w ticks)
  let ?c = "c(w := Suc (c w))"
  let ?f = "\<lambda>j. worker_request mb gateway (routes ! (j mod length routes))"
  have w: "w < R" using Cons.prems(1) by simp
  have fits: "w + c w * R < 2 ^ 64"
  proof -
    have "c w * R + R \<le> (c w + count_list (w # ticks) w) * R" by (simp add: algebra_simps)
    then show ?thesis using Cons.prems(3) [OF w] by linarith
  qed
  have seq: "unat (seqs w) = w + c w * R"
    using Cons.prems(2) [OF w] fits by (simp add: unat_of_nat del: of_nat_add of_nat_mult)
  obtain counters' where tick: "worker_tick mb send gateway routes rps (seqs w) counters =
      (?f (w + c w * R), seqs w + rps, counters')"
    by (simp add: worker_tick_def Let_def seq)
  have same: "?c v + count_list ticks v = c v + count_list (w # ticks) v" for v by simp
  have IH: "image_mset ?f (\<Sum>v<R. worker_seqs R v (?c v)) +
      mset (fst (pump_run mb send gateway routes rps ticks (seqs(w := seqs w + rps), counters')))
    = image_mset ?f (\<Sum>v<R. worker_seqs R v (?c v + count_list ticks v))"
  proof (rule Cons.IH)
    show "set ticks \<subseteq> {..<R}" using Cons.prems(1) by simp
    show "(seqs(w := seqs w + rps)) v = word_of_nat (v + ?c v * R)" if "v < R" for v
      using Cons.prems(2) [OF that] Cons.prems(4) by (cases "v = w") (simp_all add: algebra_simps)
    show "v + (?c v + count_list ticks v) * R < 2 ^ 64 + R" if "v < R" for v
      using Cons.prems(3) [OF that] unfolding same .
  qed (rule Cons.prems(4))
  then show ?case
    unfolding same worker_seqs_turn [OF w] using tick by (simp add: map_prod_def split_beta)
qed

text \<open>
  The load is spread evenly. Whatever the order in which the workers' timers fire, once each of
  the workers had \<open>k\<close> turns the requests sent are exactly those of the routes taken in turn, from the
  first, \<open>k\<close> times the number of workers in all: no route is ahead of another by more than one.
\<close>

lemma load_round_robin:
  assumes "R = unat (max rps 1)" "k * R < 2 ^ 64"
    and "set ticks \<subseteq> {..<R}" "\<And>w. w < R \<Longrightarrow> count_list ticks w = k"
  shows "mset (fst (pump_traffic mb send gateway routes rps ticks)) =
    mset (map (\<lambda>j. worker_request mb gateway (routes ! (j mod length routes))) [0..<k * R])"
proof -
  let ?f = "\<lambda>j. worker_request mb gateway (routes ! (j mod length routes))"
  let ?run = "pump_run mb send gateway routes (max rps 1) ticks (word_of_nat, \<lparr>pu_sent = 0, pu_errors = 0\<rparr>)"
  have "image_mset ?f (\<Sum>w<R. worker_seqs R w 0) + mset (fst ?run)
    = image_mset ?f (\<Sum>w<R. worker_seqs R w (0 + count_list ticks w))"
  proof (rule pump_run_seqs [OF assms(3)])
    show "w + (0 + count_list ticks w) * R < 2 ^ 64 + R" if "w < R" for w
      using assms(2) assms(4) [OF that] that by simp
    show "max rps 1 = word_of_nat R" unfolding assms(1) by simp
  qed simp
  also have "(\<Sum>w<R. worker_seqs R w (0 + count_list ticks w)) = mset [0..<k * R]"
    using assms(4) worker_seqs_total [of R k] by simp
  finally show ?thesis by (simp only: pump_traffic_def worker_seqs_0 sum.neutral_const image_mset_empty add_0 mset_map)
qed


subsection \<open>The pump's counters\<close>

lemma pump_run_counters:
  "case pump_run mb send gateway routes rps ticks (seqs, counters) of (reqs, _, counters') \<Rightarrow>
     length reqs = length ticks \<and> pu_sent counters' = pu_sent counters + word_of_nat (length ticks) \<and>
     pu_errors counters' = pu_errors counters + word_of_nat (length (filter (\<lambda>r. counts_as_error (send r)) reqs))"
proof (induction ticks arbitrary: seqs counters)
  case (Cons w ticks)
  obtain req seq counters1 where t:
    "worker_tick mb send gateway routes rps (seqs w) counters = (req, seq, counters1)" by (metis prod_cases3)
  obtain reqs seqs2 counters2 where run:
    "pump_run mb send gateway routes rps ticks (seqs(w := seq), counters1) = (reqs, seqs2, counters2)"
    by (metis prod_cases3)
  have "pu_sent counters1 = pu_sent counters + 1"
    "pu_errors counters1 = pu_errors counters + (if counts_as_error (send req) then 1 else 0)"
    using t by (auto simp: worker_tick_def Let_def)
  then show ?case using Cons.IH [of counters1 "seqs(w := seq)", unfolded run] t run by (simp add: add.assoc)
qed simp

subsection \<open>Starting times\<close>

text \<open>Within the first second, in the order of the workers, each at its exact share of the second.\<close>

lemma stagger_ms_exact:
  assumes "unat worker_id < unat (max rps 1)" "1000 * unat worker_id < 2 ^ 64"
  shows "unat (stagger_ms rps worker_id) = 1000 * unat worker_id div unat (max rps 1)"
    and "unat (stagger_ms rps worker_id) < 1000"
proof -
  have "unat ((1000 :: u64) * worker_id) = 1000 * unat worker_id"
    using assms(2) by (simp add: unat_word_ariths)
  then show eq: "unat (stagger_ms rps worker_id) = 1000 * unat worker_id div unat (max rps 1)"
    using assms(2) by (simp add: stagger_ms_def saturating_mul_def Let_def unat_div)
  show "unat (stagger_ms rps worker_id) < 1000"
    unfolding eq using assms(1) by (simp add: less_mult_imp_div_less)
qed

subsection \<open>Pseudo-random numbers\<close>

lemma f64_round_lt_1:
  assumes "0 < q" "q \<le> 1 - 1 / 2 ^ 53"
  shows "f64_round q < 1"
proof -
  have "(2 :: rat) powi (f64_exp q + 52) < 2 powi 0"
    using f64_exp_bounds(1) [OF assms(1)] assms(2) by simp
  then have "f64_exp q + 52 < 0" by (rule power_int_le_imp_less_exp [rotated]) simp_all
  then have "(2 :: rat) powi (f64_exp q - 1) \<le> 2 powi (- 54)" by (intro power_int_increasing) simp_all
  then have "f64_round q \<le> q + 2 powi (- 54)" using f64_round_error(1) [OF assms(1)] by linarith
  also have "\<dots> < 1" using assms(2) by (simp add: power_int_minus field_simps)
  finally show ?thesis .
qed

lemma f64_of_nat_top:
  assumes "2 ^ 63 \<le> h" "h < 2 ^ 64"
  shows "f64_of_nat h = of_int (round_half_even (of_nat h / 2048)) * 2048"
proof -
  have h: "(2 :: rat) powi 63 \<le> of_nat h" "(of_nat h :: rat) < 2 powi 64"
    using of_nat_mono [where 'a = rat, OF assms(1)] of_nat_less_iff [where 'a = rat, THEN iffD2, OF assms(2)]
    by simp_all
  have pos: "0 < (of_nat h :: rat)" using assms(1) by simp
  note b = f64_exp_bounds [OF pos]
  have "(2 :: rat) powi (f64_exp (of_nat h) + 52) < 2 powi 64" "(2 :: rat) powi 63 < 2 powi (f64_exp (of_nat h) + 53)"
    using h b by linarith+
  then have "f64_exp (of_nat h) + 52 < 64" "63 < f64_exp (of_nat h) + 53"
    using power_int_increasing [of 64 "f64_exp (of_nat h) + 52" "2 :: rat"]
      power_int_increasing [of "f64_exp (of_nat h) + 53" 63 "2 :: rat"] by linarith+
  then have e: "f64_exp (of_nat h) = 11" by simp
  have "(2 :: rat) powi 11 = 2048" "(2 :: rat) powi (- 11) = 1 / 2048" by (simp_all add: power_int_minus)
  then show ?thesis using pos unfolding f64_of_nat_def f64_round_def e by simp
qed

lemma f64_of_nat_saturates:
  assumes "2 ^ 64 - 1024 \<le> h" "h < 2 ^ 64"
  shows "f64_of_nat h = 2 ^ 64"
proof -
  have lo: "(2 ^ 64 - 1024 :: rat) \<le> of_nat h" and hi: "(of_nat h :: rat) < 2 ^ 64"
    using of_nat_mono [where 'a = rat, OF assms(1)] of_nat_less_iff [where 'a = rat, THEN iffD2, OF assms(2)]
    by simp_all
  have fl: "\<lfloor>(of_nat h :: rat) / 2048\<rfloor> = 2 ^ 53 - 1"
    using lo hi by (intro floor_unique) (simp_all add: field_simps)
  have "round_half_even (of_nat h / 2048 :: rat) = 2 ^ 53"
    using lo by (simp add: round_half_even_def fl field_simps)
  then show ?thesis using assms by (subst f64_of_nat_top) simp_all
qed

lemma f64_of_nat_below:
  assumes "h < 2 ^ 64 - 1024"
  shows "f64_of_nat h \<le> 2 ^ 64 - 2048"
proof (cases "2 ^ 63 \<le> h")
  case True
  have "(of_nat h :: rat) < 2 ^ 64 - 1024"
    using of_nat_less_iff [where 'a = rat, THEN iffD2, OF assms] by simp
  then have "(of_nat h :: rat) / 2048 + 1 / 2 < of_int (2 ^ 53)" by simp
  then have "(of_int (round_half_even (of_nat h / 2048)) :: rat) < of_int (2 ^ 53)"
    using round_half_even_error [of "of_nat h / 2048"] by linarith
  then have "round_half_even (of_nat h / 2048 :: rat) \<le> 2 ^ 53 - 1" by (simp only: of_int_less_iff zle_diff1_eq)
  then have "(of_int (round_half_even (of_nat h / 2048)) :: rat) \<le> of_int (2 ^ 53 - 1)" by (simp only: of_int_le_iff)
  then show ?thesis using True assms by (subst f64_of_nat_top) simp_all
next
  case False
  show ?thesis
  proof (cases "h = 0")
    case pos: False
    have "(of_nat h :: rat) < 2 ^ 63" using False of_nat_less_iff [where 'a = rat, of h "2 ^ 63"] by simp
    moreover have "\<bar>f64_round (of_nat h) - of_nat h\<bar> \<le> of_nat h / 2 ^ 53"
      using pos by (intro f64_round_error(2)) simp
    then have "f64_of_nat h \<le> of_nat h + of_nat h / 2 ^ 53" unfolding f64_of_nat_def by linarith
    ultimately show ?thesis by (simp add: field_simps)
  qed (simp add: f64_of_nat_def f64_round_def)
qed

text \<open>
  The generator's pseudo-random numbers lie between 0 and 1, whatever the hasher does, and the upper
  end is reached: exactly the 1024 largest hash values give 1, since both the hash and the largest
  64-bit number round to two to the power of 64.
\<close>

lemma frand_range:
  "0 \<le> frand hash seed \<and> frand hash seed \<le> 1 \<and>
   (frand hash seed = 1) = (2 ^ 64 - 1024 \<le> unat (hash seed))"
proof -
  let ?h = "unat (hash seed)"
  have bound: "?h < 2 ^ 64" using unsigned_less [of "hash seed"] by simp
  have eq: "frand hash seed = f64_round (f64_of_nat ?h / 2 ^ 64)"
    using f64_of_nat_saturates [of "2 ^ 64 - 1"] by (simp add: frand_def f64_div_def)
  show ?thesis
  proof (cases "2 ^ 64 - 1024 \<le> ?h")
    case True
    then show ?thesis
      using f64_of_nat_saturates [OF True bound] f64_round_up_to_int [of 1 1] by (simp add: eq)
  next
    case False
    then have "f64_of_nat ?h / 2 ^ 64 \<le> 1 - 1 / 2 ^ 53"
      using f64_of_nat_below [of ?h] by (simp add: field_simps)
    then have "f64_round (f64_of_nat ?h / 2 ^ 64) < 1"
      using f64_round_lt_1 [of "f64_of_nat ?h / 2 ^ 64"] f64_round_def [of "f64_of_nat ?h / 2 ^ 64"]
      by (cases "0 < f64_of_nat ?h / 2 ^ 64") simp_all
    then show ?thesis using False f64_round_nonneg by (auto simp: eq)
  qed
qed

subsection \<open>The command line\<close>

lemma rates_from_text:
  "f64_from_str ''0.10'' = Some (f64_of_rat (1 / 10))" "f64_from_str ''5e-2'' = Some (f64_of_rat (5 / 100))"
  "f64_from_str ''-inf'' = Some Neg_Infinity" "f64_from_str ''.'' = None" "f64_from_str ''1e'' = None"
  by (simp_all add: f64_from_str_def parse_decimal_def parse_mantissa_def parse_exponent_def all_digits_def
      to_ascii_lowercase_def ascii_lower_def is_ascii_digit_def byte_of_def digits_value_def power_int_minus
      power_int_diff)

text \<open>The settings written as flags are read back; what the flags leave open is the default.\<close>

lemma parse_args_round_trip:
  "parse_args_from (prog # [''--gateway'', g, ''--rps'', show_nat (unat n)]
      @ (if m then [''--include-mqtt''] else []) @ (if a then [''--include-amqp''] else [])) =
    default_load_config\<lparr>lc_gateway := g, lc_rps := n, lc_include_mqtt := m, lc_include_amqp := a\<rparr>"
proof -
  have "unat n < 2 ^ 64" using unsigned_less [where 'a = nat, of n] by simp
  then have "parse_unsigned 64 (show_nat (unat n)) = Some (unat n)" by (rule parse_unsigned_show_nat)
  then show ?thesis by (simp add: parse_args_from_def default_load_config_def)
qed

text \<open>A flag at the end of the line whose value is missing is skipped, like any unknown argument.\<close>

lemma parse_args_skips:
  "parse_args_loop cfg [''--rps''] = cfg"
  "arg \<notin> {''--gateway'', ''--rps'', ''--error-rate'', ''--slow-rate'', ''--include-mqtt'', ''--include-amqp''} \<Longrightarrow>
     parse_args_loop cfg (arg # rest) = parse_args_loop cfg rest"
  by (simp, cases rest) auto

lemma build_routes_not_Nil [simp]: "build_routes cfg \<noteq> []"
  by (simp add: build_routes_def BASE_ROUTES_def)

end
