(* ===== verification/Json_Bytes.thy ===== *)
theory Json_Bytes
  imports Config_Json
begin

section \<open>A text for JSON\<close>

text \<open>
  An executable pair of a printer and a parser of JSON trees, in place of serde\_json's where a concrete one is
  needed. It shares with them what the library relies on: what is printed is read back.
\<close>

fun enc_nat :: "nat \<Rightarrow> bytes" where
  "enc_nat 0 = [0]"
| "enc_nat (Suc n) = 1 # enc_nat n"

fun dec_nat :: "bytes \<Rightarrow> (nat \<times> bytes) option" where
  "dec_nat [] = None"
| "dec_nat (b # bs) = (if b = 0 then Some (0, bs) else map_option (map_prod Suc id) (dec_nat bs))"

fun times :: "(bytes \<Rightarrow> ('a \<times> bytes) option) \<Rightarrow> nat \<Rightarrow> bytes \<Rightarrow> ('a list \<times> bytes) option" where
  "times dec 0 bs = Some ([], bs)"
| "times dec (Suc n) bs = do { (x, bs) \<leftarrow> dec bs; (xs, bs) \<leftarrow> times dec n bs; Some (x # xs, bs) }"

definition enc_list :: "('a \<Rightarrow> bytes) \<Rightarrow> 'a list \<Rightarrow> bytes" where
  "enc_list enc xs = enc_nat (length xs) @ concat (map enc xs)"

lemma enc_list_cong [fundef_cong]:
  "xs = ys \<Longrightarrow> (\<And>x. x \<in> set ys \<Longrightarrow> f x = g x) \<Longrightarrow> enc_list f xs = enc_list g ys"
  by (simp add: enc_list_def cong: map_cong)

definition dec_list :: "(bytes \<Rightarrow> ('a \<times> bytes) option) \<Rightarrow> bytes \<Rightarrow> ('a list \<times> bytes) option" where
  "dec_list dec bs = do { (n, bs) \<leftarrow> dec_nat bs; times dec n bs }"

fun dec_char :: "bytes \<Rightarrow> (char \<times> bytes) option" where
  "dec_char [] = None"
| "dec_char (b # bs) = Some (char_of (unat b), bs)"

definition enc_string :: "string \<Rightarrow> bytes" where
  "enc_string = enc_list (\<lambda>c. [of_nat (byte_of c)])"

definition dec_string :: "bytes \<Rightarrow> (string \<times> bytes) option" where
  "dec_string = dec_list dec_char"

fun enc_json :: "json \<Rightarrow> bytes" where
  "enc_json JNull = [0]"
| "enc_json (JBool b) = [1, if b then 1 else 0]"
| "enc_json (JNumber i) = 2 # (if i < 0 then 1 else 0) # enc_nat (nat \<bar>i\<bar>)"
| "enc_json (JFloat s) = 3 # enc_string s"
| "enc_json (JString s) = 4 # enc_string s"
| "enc_json (JArray vs) = 5 # enc_list enc_json vs"
| "enc_json (JObject kvs) = 6 # enc_list (\<lambda>(k, v). enc_string k @ enc_json v) kvs"

fun dec_json :: "nat \<Rightarrow> bytes \<Rightarrow> (json \<times> bytes) option" where
  "dec_json (Suc fuel) (tag # bs) =
     (if tag = 0 then Some (JNull, bs)
      else if tag = 1 then (case bs of b # bs \<Rightarrow> Some (JBool (b = 1), bs) | [] \<Rightarrow> None)
      else if tag = 2 then
        (case bs of
           sign # bs \<Rightarrow> map_option (map_prod (\<lambda>n. JNumber (if sign = 1 then - int n else int n)) id) (dec_nat bs)
         | [] \<Rightarrow> None)
      else if tag = 3 then map_option (map_prod JFloat id) (dec_string bs)
      else if tag = 4 then map_option (map_prod JString id) (dec_string bs)
      else if tag = 5 then map_option (map_prod JArray id) (dec_list (dec_json fuel) bs)
      else map_option (map_prod JObject id)
        (dec_list (\<lambda>bs. do { (k, bs) \<leftarrow> dec_string bs; (v, bs) \<leftarrow> dec_json fuel bs; Some ((k, v), bs) }) bs))"
| "dec_json fuel bs = None"

definition parse_json :: "bytes \<Rightarrow> json option" where
  "parse_json bs = (case dec_json (length bs) bs of Some (v, []) \<Rightarrow> Some v | _ \<Rightarrow> None)"

lemma dec_nat_enc [simp]: "dec_nat (enc_nat n @ rest) = Some (n, rest)"
  by (induction n) simp_all

lemma dec_list_enc:
  assumes "\<And>x rest. x \<in> set xs \<Longrightarrow> dec (enc x @ rest) = Some (x, rest)"
  shows "dec_list dec (enc_list enc xs @ rest) = Some (xs, rest)"
proof -
  have "times dec (length xs) (concat (map enc xs) @ rest) = Some (xs, rest)"
    using assms by (induction xs arbitrary: rest) simp_all
  then show ?thesis by (simp add: dec_list_def enc_list_def)
qed

lemma byte_read_back: "char_of (unat (of_nat (byte_of c) :: u8)) = c"
  by (simp add: byte_of_def unat_of_nat of_char_mod_256)

lemma dec_string_enc [simp]: "dec_string (enc_string s @ rest) = Some (s, rest)"
  unfolding dec_string_def enc_string_def by (rule dec_list_enc) (simp add: byte_read_back)

text \<open>The length of the text is fuel enough.\<close>

lemma dec_json_enc: "length (enc_json v) \<le> fuel \<Longrightarrow> dec_json fuel (enc_json v @ rest) = Some (v, rest)"
proof (induction v arbitrary: fuel rest)
  case (JArray vs)
  then obtain f where f: "fuel = Suc f" "length (enc_list enc_json vs) \<le> f" by (cases fuel) auto
  have "length (enc_json v) \<le> f" if "v \<in> set vs" for v
    using that f(2) member_le_sum_list [of "length (enc_json v)" "map (length \<circ> enc_json) vs"]
    by (simp add: enc_list_def length_concat comp_def)
  then have "dec_list (dec_json f) (enc_list enc_json vs @ rest) = Some (vs, rest)"
    by (intro dec_list_enc) (simp add: JArray.IH)
  then show ?case using f by simp
next
  case (JObject kvs)
  let ?enc = "\<lambda>(k, v). enc_string k @ enc_json v"
  from JObject.prems obtain f where f: "fuel = Suc f" "length (enc_list ?enc kvs) \<le> f" by (cases fuel) auto
  have "length (enc_json (snd kv)) \<le> f" if "kv \<in> set kvs" for kv
    using that f(2) member_le_sum_list [of "length (?enc kv)" "map (length \<circ> ?enc) kvs"]
    by (auto simp: enc_list_def length_concat comp_def split: prod.splits)
  then have "dec_list (\<lambda>bs. do { (k, bs) \<leftarrow> dec_string bs; (v, bs) \<leftarrow> dec_json f bs; Some ((k, v), bs) })
      (enc_list ?enc kvs @ rest) = Some (kvs, rest)"
    by (intro dec_list_enc) (auto simp: JObject.IH split: prod.splits)
  then show ?case using f by simp
next
  case JNull
  then show ?case by (cases fuel) simp_all
next
  case (JBool b)
  then show ?case by (cases fuel) simp_all
next
  case (JNumber i)
  then show ?case by (cases fuel) simp_all
next
  case (JFloat s)
  then show ?case by (cases fuel) simp_all
next
  case (JString s)
  then show ?case by (cases fuel) simp_all
qed

lemma parse_json_enc [simp]: "parse_json (enc_json v) = Some v"
  using dec_json_enc [of v "length (enc_json v)" "[]"] by (simp add: parse_json_def)

end
