(* ===== verification/Admin_Json.thy ===== *)
theory Admin_Json
  imports Config_Forms Gateway_App Json_Bytes
begin

section \<open>What the admin API sends and reads\<close>

text \<open>
  The JSON form of the answers in \<open>src/admin/types.rs\<close>, as serde derives it, and the API as a client uses it: the
  bodies of its answers are read, edited and sent back. Floating-point numbers are written by serde\_json and
  are a parameter, as is the text of JSON; the entries of a \<open>HashMap\<close> come in the order in which the map holds them.
\<close>

subsection \<open>The answers\<close>

definition ser_request_log_entry :: "request_log_entry \<Rightarrow> json" where
  "ser_request_log_entry e = JObject
     [(''id'', ser_unsigned (le_id e)),
      (''timestamp_ms'', ser_unsigned (le_timestamp_ms e)),
      (''method'', JString (le_method e)),
      (''path'', JString (le_path e)),
      (''matched_route'', ser_option JString (le_matched_route e)),
      (''status_code'', ser_unsigned (le_status_code e)),
      (''latency_ms'', ser_unsigned (le_latency_ms e)),
      (''upstream_target'', JString (le_upstream_target e)),
      (''error'', ser_option JString (le_error e))]"

text \<open>A field of type \<open>Option\<close> may be left out even without a default.\<close>

definition de_request_log_entry :: "json \<Rightarrow> request_log_entry option" where
  "de_request_log_entry v = do {
       fs \<leftarrow> struct_fields [''id'', ''timestamp_ms'', ''method'', ''path'', ''matched_route'', ''status_code'',
         ''latency_ms'', ''upstream_target'', ''error''] v;
       ident \<leftarrow> required de_unsigned (fs ! 0);
       timestamp_ms \<leftarrow> required de_unsigned (fs ! 1);
       req_method \<leftarrow> required de_string (fs ! 2);
       path \<leftarrow> required de_string (fs ! 3);
       matched_route \<leftarrow> defaulted None (de_option de_string) (fs ! 4);
       status_code \<leftarrow> required de_unsigned (fs ! 5);
       latency_ms \<leftarrow> required de_unsigned (fs ! 6);
       upstream_target \<leftarrow> required de_string (fs ! 7);
       err \<leftarrow> defaulted None (de_option de_string) (fs ! 8);
       Some \<lparr>le_id = ident, le_timestamp_ms = timestamp_ms, le_method = req_method, le_path = path, le_matched_route = matched_route, le_status_code = status_code, le_latency_ms = latency_ms, le_upstream_target = upstream_target, le_error = err\<rparr> }"

definition ser_bucket_point :: "(rat \<Rightarrow> json) \<Rightarrow> bucket_point \<Rightarrow> json" where
  "ser_bucket_point ser_f64 b = JObject
     [(''timestamp_secs'', ser_unsigned (bp_timestamp_secs b)),
      (''value'', ser_f64 (bp_value b))]"

definition ser_counts :: "(string \<times> u64) list \<Rightarrow> json" where
  "ser_counts kvs = JObject (map (map_prod id ser_unsigned) kvs)"

definition ser_metrics_summary :: "(rat \<Rightarrow> json) \<Rightarrow> metrics_summary \<Rightarrow> json" where
  "ser_metrics_summary ser_f64 s = JObject
     [(''total_requests'', ser_unsigned (su_total_requests s)),
      (''rps'', ser_f64 (su_rps s)),
      (''error_rate'', ser_f64 (su_error_rate s)),
      (''p50_latency_ms'', ser_f64 (su_p50_latency_ms s)),
      (''p95_latency_ms'', ser_f64 (su_p95_latency_ms s)),
      (''p99_latency_ms'', ser_f64 (su_p99_latency_ms s)),
      (''status_code_counts'', ser_counts (su_status_code_counts s)),
      (''requests_by_route'', ser_counts (su_requests_by_route s)),
      (''rps_series'', ser_list (ser_bucket_point ser_f64) (su_rps_series s)),
      (''latency_series'', ser_list (ser_bucket_point ser_f64) (su_latency_series s))]"

definition ser_health_response :: "health_response \<Rightarrow> json" where
  "ser_health_response h = JObject
     [(''status'', JString (hr_status h)),
      (''uptime_secs'', ser_unsigned (hr_uptime_secs h)),
      (''version'', JString (hr_version h)),
      (''active_routes'', JNumber (int (hr_active_routes h)))]"

definition ser_route_info :: "(rat \<Rightarrow> json) \<Rightarrow> route_info \<Rightarrow> json" where
  "ser_route_info ser_f64 r = JObject
     [(''path'', JString (ri_path r)),
      (''transport_type'', JString (ri_transport_type r)),
      (''target'', JString (ri_target r)),
      (''methods'', ser_list JString (ri_methods r)),
      (''timeout_secs'', ser_unsigned (ri_timeout_secs r)),
      (''total_requests'', ser_unsigned (ri_total_requests r)),
      (''error_count'', ser_unsigned (ri_error_count r)),
      (''avg_latency_ms'', ser_f64 (ri_avg_latency_ms r))]"

definition ser_config_snapshot :: "config_snapshot \<Rightarrow> json" where
  "ser_config_snapshot s = JObject
     [(''active'', ser_gateway (cs_active s)),
      (''draft'', ser_gateway (cs_draft s))]"

definition ser_config_validation_response :: "config_validation_response \<Rightarrow> json" where
  "ser_config_validation_response r = JObject
     [(''valid'', JBool (cv_valid r)),
      (''errors'', ser_list JString (cv_errors r))]"

definition ser_config_draft_response :: "config_draft_response \<Rightarrow> json" where
  "ser_config_draft_response r = JObject
     [(''saved'', JBool (cd_saved r)),
      (''errors'', ser_list JString (cd_errors r)),
      (''draft'', ser_gateway (cd_draft r))]"

definition ser_config_activate_response :: "config_activate_response \<Rightarrow> json" where
  "ser_config_activate_response r = JObject
     [(''activated'', JBool (ca_activated r)),
      (''errors'', ser_list JString (ca_errors r)),
      (''active'', ser_gateway (ca_active r))]"

definition ser_config_template :: "config_template \<Rightarrow> json" where
  "ser_config_template t = JObject
     [(''kind'', JString (ct_kind t)),
      (''label'', JString (ct_label t)),
      (''value'', ct_value t)]"

definition ser_config_ui_schema :: "config_ui_schema \<Rightarrow> json" where
  "ser_config_ui_schema s = JObject
     [(''route_templates'', ser_list ser_config_template (cu_route_templates s)),
      (''listener_templates'', ser_list ser_config_template (cu_listener_templates s))]"

text \<open>The answers that are JSON; the page and the event stream are not.\<close>

fun answer_json :: "(rat \<Rightarrow> json) \<Rightarrow> admin_answer \<Rightarrow> json option" where
  "answer_json ser_f64 Page = None"
| "answer_json ser_f64 (Health_Answer h) = Some (ser_health_response h)"
| "answer_json ser_f64 (Metrics_Answer s) = Some (ser_metrics_summary ser_f64 s)"
| "answer_json ser_f64 (Routes_Answer rs) = Some (ser_list (ser_route_info ser_f64) rs)"
| "answer_json ser_f64 (Recent_Answer es) = Some (ser_list ser_request_log_entry es)"
| "answer_json ser_f64 (Config_Answer s) = Some (ser_config_snapshot s)"
| "answer_json ser_f64 (Schema_Answer s) = Some (ser_config_ui_schema s)"
| "answer_json ser_f64 (Validation_Answer r) = Some (ser_config_validation_response r)"
| "answer_json ser_f64 (Draft_Answer r) = Some (ser_config_draft_response r)"
| "answer_json ser_f64 (Activation_Answer r) = Some (ser_config_activate_response r)"
| "answer_json ser_f64 (Event_Stream n) = None"

subsection \<open>The log as a client reads it\<close>

interpretation log_entry_codec: codec ser_request_log_entry de_request_log_entry
  by unfold_locales (simp add: ser_request_log_entry_def de_request_log_entry_def serde)

text \<open>
  A dashboard that parses the events gets the entries that were recorded, given a printer of JSON that its
  parser reads back.
\<close>

lemma events_read_back:
  assumes "\<And>v. parse (print v) = Some v"
  shows "map (\<lambda>text. Option.bind (parse text) de_request_log_entry)
      (admin_events (\<lambda>e. Some (print (ser_request_log_entry e))) items) = map Some (read_entries items)"
  using assms admin_events_eq [of "print \<circ> ser_request_log_entry" items]
  by (simp add: comp_def log_entry_codec.round_trip)

subsection \<open>An editing session\<close>

text \<open>
  What axum's \<open>Json\<close> is documented to do: as an answer it is a 200 with the value's text as its body, and as an
  extractor it hands over the value that a request of type \<open>application/json\<close> holds. \<open>parse\<close> reads JSON text.
\<close>

definition json_request :: "(bytes \<Rightarrow> json option) \<Rightarrow> incoming \<Rightarrow> json \<Rightarrow> bool" where
  "json_request parse req v \<longleftrightarrow> (''content-type'', Some ''application/json'') \<in> set (in_headers req) \<and>
     (\<exists>body. in_body req = Inr body \<and> parse body = Some v)"

definition speaks_json :: "(bytes \<Rightarrow> json option) \<Rightarrow> (rat \<Rightarrow> json) \<Rightarrow> (json \<Rightarrow> json) \<Rightarrow> framework \<Rightarrow> bool" where
  "speaks_json parse ser_f64 to_value fw \<longleftrightarrow>
     (\<forall>answer v. answer_json ser_f64 answer = Some v \<longrightarrow>
        re_status (fw_response fw answer) = 200 \<and> parse (re_body (fw_response fw answer)) = Some v) \<and>
     (\<forall>req v c. json_request parse req v \<longrightarrow> de_gateway to_value v = Some c \<longrightarrow> fw_json fw req = Inr c)"

text \<open>A request of an administrator: to one of the endpoints, by its method, small enough, and admitted by the chain.\<close>

definition admitted_call :: "framework \<Rightarrow> moment \<Rightarrow> admin_endpoint \<Rightarrow> incoming \<Rightarrow> app_state \<Rightarrow> bool" where
  "admitted_call fw mo endpoint req st \<longleftrightarrow>
     fw_too_large fw (10 * 1024 * 1024) req = None \<and>
     (\<exists>verb. map_of build_admin_router (in_path req) = Some (verb, endpoint) \<and> fw_accepts fw verb (in_method req)) \<and>
     is_ok (fst (chain_handle_request (mo_now mo) (as_middleware st) (admin_core_request req)))"

definition chain_after :: "moment \<Rightarrow> incoming \<Rightarrow> app_state \<Rightarrow> chain" where
  "chain_after mo req st = snd (chain_handle_request (mo_now mo) (as_middleware st) (admin_core_request req))"

lemma admitted_call_app:
  assumes "documented fw" "admitted_call fw mo endpoint req st"
  shows "app fw ex mo req st =
    (case admin_handler fw mo endpoint req (st\<lparr>as_middleware := chain_after mo req st\<rparr>) of
       (reply, st') \<Rightarrow> Some (finalize_response ex (as_middleware st') reply, st', []))"
proof -
  obtain verb where entry: "map_of build_admin_router (in_path req) = Some (verb, endpoint)"
    and verb: "fw_accepts fw verb (in_method req)" and size: "fw_too_large fw (10 * 1024 * 1024) req = None"
    using assms(2) by (auto simp: admitted_call_def)
  obtain r mw where chain: "chain_handle_request (mo_now mo) (as_middleware st) (admin_core_request req) = (Ok r, mw)"
    using assms(2) unfolding admitted_call_def by (metis is_ok.elims(2) prod.collapse)
  have "in_path req \<in> set (map fst build_admin_router)" using map_of_SomeD [OF entry] by force
  then have "fw_find fw app_patterns (in_path req) = Some (in_path req)"
    using admin_paths_plain by (intro documented_literal [OF assms(1)]) (auto simp: app_patterns_def list_all_iff)
  then show ?thesis using entry verb size chain
    by (simp add: chain_after_def app_def admin_middleware_def admin_router_def Let_def split_beta)
qed

lemma finalize_body [simp]: "re_body (finalize_response ex mw reply) = re_body reply"
  by (simp add: finalize_response_eq)

lemma finalize_status: "valid_status (re_status reply) \<Longrightarrow> re_status (finalize_response ex mw reply) = re_status reply"
  by (simp add: finalize_response_eq)

text \<open>
  C29: an administrator can save what the API shows. An admitted GET of the configurations is answered with JSON in
  which the client finds the draft; sent back by an admitted PUT, this draft is accepted without errors, is
  shown again in the answer, and leaves both configurations as they were.
\<close>

theorem shown_draft_saved:
  assumes fw: "documented fw" "speaks_json parse ser_f64 to_value fw"
    and st: "store_valid (as_config_store st)" "settings_read_back to_value (acs_draft (as_config_store st))"
    and shown: "admitted_call fw mo Config_Show req st" "app fw ex mo req st = Some (reply, st1, calls)"
    and read: "parse (re_body reply) = Some v" "json_get v ''draft'' = Some draft"
    and put: "admitted_call fw mo' Config_Draft req' st1" "json_request parse req' draft"
  shows "\<exists>reply' st2. app fw ex mo' req' st1 = Some (reply', st2, []) \<and> re_status reply' = 200 \<and>
    parse (re_body reply') = Some (JObject [(''saved'', JBool True), (''errors'', JArray []), (''draft'', draft)]) \<and>
    as_config_store st2 = as_config_store st"
proof -
  let ?store = "as_config_store st"
  have st1: "as_config_store st1 = ?store"
    and "reply = finalize_response ex (chain_after mo req st) (fw_response fw (Config_Answer (admin_config ?store)))"
    using shown(2) admitted_call_app [OF fw(1) shown(1), of ex] by auto
  then have "v = ser_config_snapshot (admin_config ?store)"
    using read(1) fw(2) by (simp add: speaks_json_def)
  then have draft: "draft = ser_gateway (acs_draft ?store)"
    using read(2) by (simp add: ser_config_snapshot_def admin_config_def snapshot_def)
  then have "de_gateway to_value draft = Some (acs_draft ?store)"
    using st(2) by (simp add: config_read_back settings_read_back_def list_all_iff)
  then have config: "fw_json fw req' = Inr (acs_draft ?store)"
    using fw(2) put(2) unfolding speaks_json_def by blast
  have saved: "admin_save_draft_config (acs_draft ?store) ?store
      = (\<lparr>cd_saved = True, cd_errors = [], cd_draft = acs_draft ?store\<rparr>, ?store)"
    using st(1) validate_iff [of "acs_draft ?store"] by (simp add: admin_save_draft_config_def save_draft_def store_valid_def)
  let ?answer = "Draft_Answer \<lparr>cd_saved = True, cd_errors = [], cd_draft = acs_draft ?store\<rparr>"
  have "answer_json ser_f64 ?answer = Some (JObject [(''saved'', JBool True), (''errors'', JArray []), (''draft'', draft)])"
    by (simp add: ser_config_draft_response_def ser_list_def draft)
  then have reply: "re_status (fw_response fw ?answer) = 200"
    "parse (re_body (fw_response fw ?answer)) = Some (JObject [(''saved'', JBool True), (''errors'', JArray []), (''draft'', draft)])"
    using fw(2) unfolding speaks_json_def by blast+
  show ?thesis using admitted_call_app [OF fw(1) put(1), of ex] config saved reply st1 by (auto simp: finalize_status)
qed

text \<open>A framework that prints and parses, and a session on a gateway that has just been created.\<close>

definition json_framework :: framework where
  "json_framework = plain_framework\<lparr>
     fw_response := \<lambda>answer. (status_reply 200)\<lparr>re_body :=
       (case answer_json (\<lambda>r. JFloat []) answer of Some v \<Rightarrow> enc_json v | None \<Rightarrow> [])\<rparr>,
     fw_json := \<lambda>req.
       (case in_body req of
          Inr body \<Rightarrow> (case Option.bind (parse_json body) (de_gateway id) of Some c \<Rightarrow> Inr c | None \<Rightarrow> Inl (status_reply 422))
        | Inl e \<Rightarrow> Inl (status_reply 400))\<rparr>"

lemma json_framework_ok:
  "documented json_framework" "speaks_json parse_json (\<lambda>r. JFloat []) id json_framework"
proof -
  show "documented json_framework" using plain_documented by (simp add: documented_def json_framework_def)
  show "speaks_json parse_json (\<lambda>r. JFloat []) id json_framework"
    by (auto simp: speaks_json_def json_framework_def json_request_def)
qed

definition draft_put :: "json \<Rightarrow> incoming" where
  "draft_put v = (get_request ''/admin/api/config/draft'')\<lparr>in_method := ''PUT'',
     in_headers := [(''content-type'', Some ''application/json'')], in_body := Inr (enc_json v)\<rparr>"

lemma edited_state_admits:
  assumes "as_middleware st = as_middleware edited_state"
    and "(in_method req, map_of build_admin_router (in_path req)) \<in> {(''GET'', Some (GET, e)), (''PUT'', Some (PUT, e))}"
  shows "admitted_call json_framework mo e req st" "chain_after mo req st = as_middleware edited_state"
  using assms unfolding admitted_call_def chain_after_def edited_chain
  by (auto simp: json_framework_def plain_framework_def chain_with_cases authorised_def limiter_verdict_def
      minimal_config_def default_middleware_def default_rate_limit_config_def)

theorem shown_draft_saved_witness:
  "\<exists>reply st1 v draft reply' st2.
    app json_framework refusing noon (get_request ''/admin/api/config'') edited_state = Some (reply, st1, []) \<and>
    parse_json (re_body reply) = Some v \<and> json_get v ''draft'' = Some draft \<and>
    app json_framework refusing noon (draft_put draft) st1 = Some (reply', st2, []) \<and> re_status reply' = 200 \<and>
    as_config_store st2 = as_config_store edited_state"
proof -
  let ?get = "get_request ''/admin/api/config''" and ?store = "as_config_store edited_state"
  let ?draft = "ser_gateway (acs_draft ?store)"
  let ?v = "ser_config_snapshot (admin_config ?store)"
  have "map_of build_admin_router (in_path ?get) = Some (GET, Config_Show)" "in_method ?get = ''GET''"
    by (simp_all add: get_request_def build_admin_router_def)
  then have get: "admitted_call json_framework noon Config_Show ?get edited_state"
    and chain: "chain_after noon ?get edited_state = as_middleware edited_state"
    using edited_state_admits [of edited_state ?get Config_Show] by simp_all
  obtain reply st1 where shown: "app json_framework refusing noon ?get edited_state = Some (reply, st1, [])"
    "parse_json (re_body reply) = Some ?v" "as_middleware st1 = as_middleware edited_state"
    using admitted_call_app [OF json_framework_ok(1) get, of refusing] chain by (simp add: json_framework_def)
  have draft: "json_get ?v ''draft'' = Some ?draft"
    by (simp add: ser_config_snapshot_def admin_config_def snapshot_def)
  have "map_of build_admin_router (in_path (draft_put ?draft)) = Some (PUT, Config_Draft)" "in_method (draft_put ?draft) = ''PUT''"
    by (simp_all add: draft_put_def get_request_def build_admin_router_def)
  then have put: "admitted_call json_framework noon Config_Draft (draft_put ?draft) st1"
    using edited_state_admits [OF shown(3), of "draft_put ?draft" Config_Draft] by simp
  have "store_valid ?store"
    using limited_config_valid by (simp add: store_valid_def edited_state_def minimal_config_well_formed validate_iff)
  moreover have "settings_read_back id (acs_draft ?store)" by (simp add: settings_read_back_def list_all_iff)
  moreover have "json_request parse_json (draft_put ?draft) ?draft" by (simp add: json_request_def draft_put_def)
  ultimately show ?thesis
    using shown_draft_saved [OF json_framework_ok _ _ get shown(1,2) draft put] shown draft by blast
qed

end
