(* ===== verification/Served_Metrics.thy ===== *)
theory Served_Metrics
  imports State_Invariant
begin

section \<open>Every answer is counted once\<close>

text \<open>
  The measurements of a gateway under concurrency: while requests, calls of the admin API and the ticker
  interleave, the metrics hold exactly the requests that have been answered, each with the status its client got.
  That a recording itself may be interrupted is the subject of \<open>Metrics_Concurrent\<close>.
\<close>

fun answer_of :: "task \<Rightarrow> (string \<times> string \<times> u16) multiset" where
  "answer_of t = (case ta_progress t of
     Answered reply calls \<Rightarrow> {#(in_method (ta_request t), in_path (ta_request t), re_status reply)#} | _ \<Rightarrow> {#})"

declare answer_of.simps [simp del]

definition answers :: "task list \<Rightarrow> (string \<times> string \<times> u16) multiset" where
  "answers tasks = sum_list (map answer_of tasks)"

definition measured_as :: "u64 \<times> measurement \<Rightarrow> string \<times> string \<times> u16" where
  "measured_as r = (me_method (snd r), me_path (snd r), me_status_code (snd r))"

text \<open>
  What the surroundings provide: sane clients, the http crate's 101 for a valid upgrade, and handlers of the
  admin API that do not record, as none of \<open>src/admin/handlers.rs\<close> does.
\<close>

definition proper_upgrade :: "incoming \<Rightarrow> bool" where
  "proper_upgrade req \<longleftrightarrow> (case in_upgrade req of Some r \<Rightarrow> re_status r = 101 | None \<Rightarrow> True)"

fun proper :: "serving_action \<Rightarrow> bool" where
  "proper (Enter ex mo req) = (sane ex \<and> proper_upgrade req)"
| "proper (Admin_Call ex now inner req) = (\<forall>st. as_metrics (snd (inner st)) = as_metrics st)"
| "proper a = True"

text \<open>A request under way knows what it will be recorded as.\<close>

fun under_way :: "incoming \<Rightarrow> progress \<Rightarrow> bool" where
  "under_way req (Passed d query core_req) \<longleftrightarrow>
     d_method d = in_method req \<and> d_path d = in_path req \<and> \<not> is_websocket (rc_transport (d_route d))"
| "under_way req (Turned_Away d e) \<longleftrightarrow> d_method d = in_method req \<and> d_path d = in_path req"
| "under_way req (Answered reply calls) \<longleftrightarrow> True"

text \<open>One part of a request: its answer comes with its record, and without an answer nothing is recorded.\<close>

definition counted :: "incoming \<Rightarrow> progress \<Rightarrow> metrics_store \<Rightarrow> metrics_store \<Rightarrow> bool" where
  "counted req p m m' \<longleftrightarrow> (case p of
     Answered reply calls \<Rightarrow> \<exists>t x. m' = record_request t x m \<and>
       (me_method x, me_path x, me_status_code x) = (in_method req, in_path req, re_status reply)
   | _ \<Rightarrow> m' = m \<and> under_way req p)"

lemma counted_answer:
  assumes "answer h = (p, st')" "logged mo (in_method req) (in_path req) matched m h"
  shows "counted req p m (as_metrics st')"
  using assms by (fastforce simp: logged_def answer_def counted_def split: prod.splits)

lemma enter_counted:
  assumes "sane ex" "proper_upgrade req" and enter: "enter_request ex mo req st = (p, st')"
  shows "counted req p (as_metrics st) (as_metrics st')"
proof (cases "path_contains_traversal (in_path req) \<or> route (as_router st) (in_method req) (in_path req) = None")
  case True
  then have "\<exists>status msg. valid_status status \<and> answer (finish ex (record_outcome mo (in_method req) (in_path req) None [] status None st) []
      (text_reply status msg)) = (p, st')"
    using enter by (auto simp: enter_request_def intro: valid_status_codes split: if_splits)
  then show ?thesis by (auto elim!: counted_answer)
next
  case False
  then obtain r where safe: "\<not> path_contains_traversal (in_path req)"
    and r: "route (as_router st) (in_method req) (in_path req) = Some r" by auto
  let ?d = "\<lparr>d_method = in_method req, d_path = in_path req, d_route = r\<rparr>"
  note step = enter [unfolded enter_request_def, simplified safe r, simplified]
  show ?thesis
  proof (cases "is_websocket (rc_transport r)")
    case True
    then obtain cfg where "rc_transport r = WebSocket cfg" by (auto simp: is_websocket_iff)
    then have "answer (handle_ws_route ex mo ?d cfg req st) = (p, st')" using step by (simp add: Let_def)
    moreover have "re_status reply = 101" if "in_upgrade req = Some reply" for reply
      using that assms(2) by (simp add: proper_upgrade_def)
    ultimately show ?thesis using handle_ws_route_logged [of req mo ?d st ex cfg] by (auto intro: counted_answer)
  next
    case other: False
    show ?thesis
    proof (cases "to_bytes (in_body req) MAX_REQUEST_BODY")
      case None
      then have "answer (finish ex (d_record mo ?d (transport_target (rc_transport r)) 413 None st) []
          (text_reply 413 ''Body too large'')) = (p, st')"
        using step other by (cases "rc_transport r") (simp_all add: Let_def)
      then show ?thesis
        using logged_d_record [of "text_reply 413 ''Body too large''" 413 "as_metrics st" st mo ?d ex
            "transport_target (rc_transport r)" None "[]"]
        by (auto elim: counted_answer)
    next
      case (Some body)
      then show ?thesis using step other
        by (cases "rc_transport r") (auto simp: Let_def counted_def split: prod.splits result.splits)
    qed
  qed
qed

lemma complete_counted:
  assumes "sane ex" "under_way req p" "\<And>reply calls. p \<noteq> Answered reply calls"
  obtains p' st' reply calls where "complete_request ex mo p st = Some (p', st')" "p' = Answered reply calls"
    "counted req p' (as_metrics st) (as_metrics st')"
proof (cases p)
  case (Passed d query core_req)
  let ?hs = "set_forwarded_for (rm_headers (rq_metadata core_req))
    (case rm_remote_addr (rq_metadata core_req) of Some a \<Rightarrow> a | None \<Rightarrow> [])"
  obtain h where h: "dispatch_transport ex mo d (rc_transport (d_route d)) query ?hs (rq_data core_req) st = Some h"
    using dispatch_transport_Some assms(2) Passed by (metis not_None_eq under_way.simps(1))
  obtain p' st' where a: "answer h = (p', st')" by force
  show thesis using that [of p' st'] h a Passed counted_answer [OF a] dispatch_transport_logged [OF assms(1) h] assms(2)
    by (auto simp: Let_def answer_def split: prod.splits)
next
  case (Turned_Away d e)
  obtain p' st' where a: "answer (refuse ex mo d e st) = (p', st')" by force
  show thesis using that [of p' st'] a Turned_Away counted_answer [OF a] refuse_logged [of mo d st ex e] assms(2)
    by (auto simp: answer_def split: prod.splits)
qed (use assms(3) in blast)

subsection \<open>The invariant\<close>

definition measured :: "instant \<Rightarrow> serving \<Rightarrow> bool" where
  "measured started_at s \<longleftrightarrow>
     (\<forall>t \<in> set (se_tasks s). sane (ta_externals t) \<and> under_way (ta_request t) (ta_progress t)) \<and>
     (\<exists>ops. as_metrics (se_state s) = metrics_run ops (metrics_new started_at) \<and>
        mset (map measured_as (recorded ops)) = answers (se_tasks s))"

text \<open>The history grows by what one part of one request records.\<close>

lemma counted_history:
  assumes "counted (ta_request t) p m m'" "m = metrics_run ops (metrics_new started_at)" "ta_progress t = p"
  obtains ops' where "m' = metrics_run (ops @ ops') (metrics_new started_at)"
    "mset (map measured_as (recorded ops')) = answer_of t" "under_way (ta_request t) p"
proof (cases p)
  case (Answered reply calls)
  then obtain k x where x: "m' = record_request k x m"
    "(me_method x, me_path x, me_status_code x) = (in_method (ta_request t), in_path (ta_request t), re_status reply)"
    using assms(1) by (auto simp: counted_def)
  then show thesis using that [of "[Record k x]"] assms(2,3) Answered by (simp add: measured_as_def answer_of.simps)
next
  case (Passed d query core_req)
  then show thesis using that [of "[]"] assms by (simp add: counted_def answer_of.simps)
next
  case (Turned_Away d e)
  then show thesis using that [of "[]"] assms by (simp add: counted_def answer_of.simps)
qed

lemma answers_snoc [simp]: "answers (ts @ [t]) = answers ts + answer_of t"
  by (simp add: answers_def)

lemma answers_update:
  assumes "i < length ts" "answer_of (ts ! i) = {#}"
  shows "answers (ts[i := t]) = answers ts + answer_of t"
  using sum_list_map_update [OF assms(1), of answer_of t] assms(2) by (simp add: answers_def)

lemma serving_measured:
  assumes "as_metrics st = metrics_new started_at" "list_all proper as"
  shows "measured started_at (serving_run as st)"
  using assms(2)
proof (induction as rule: rev_induct)
  case Nil
  show ?case using assms(1) by (auto simp: measured_def answers_def intro!: exI [of _ "[]"])
next
  case (snoc a as)
  let ?s = "serving_run as st"
  from snoc obtain ops where tasks: "\<forall>t \<in> set (se_tasks ?s). sane (ta_externals t) \<and> under_way (ta_request t) (ta_progress t)"
    and ops: "as_metrics (se_state ?s) = metrics_run ops (metrics_new started_at)"
      "mset (map measured_as (recorded ops)) = answers (se_tasks ?s)"
    by (auto simp: measured_def)
  show ?case
  proof (cases a)
    case (Enter ex mo req)
    obtain p st' where enter: "enter_request ex mo req (se_state ?s) = (p, st')" by force
    let ?t = "\<lparr>ta_externals = ex, ta_request = req, ta_entered = mo_now mo, ta_progress = p\<rparr>"
    have "counted req p (as_metrics (se_state ?s)) (as_metrics st')"
      using enter_counted [OF _ _ enter] snoc.prems Enter by simp
    then obtain ops' where "as_metrics st' = metrics_run (ops @ ops') (metrics_new started_at)"
      "mset (map measured_as (recorded ops')) = answer_of ?t" "under_way req p"
      using counted_history [of ?t p _ "as_metrics st'" ops started_at] ops(1) by auto
    then show ?thesis using Enter enter tasks ops snoc.prems
      by (auto simp: measured_def intro!: exI [of _ "ops @ ops'"])
  next
    case (Complete i mo)
    show ?thesis
    proof (cases "i < length (se_tasks ?s) \<and> (\<forall>reply calls. ta_progress (se_tasks ?s ! i) \<noteq> Answered reply calls)")
      case True
      let ?old = "se_tasks ?s ! i"
      have i: "i < length (se_tasks ?s)" and old: "sane (ta_externals ?old)" "under_way (ta_request ?old) (ta_progress ?old)"
        using True tasks by auto
      obtain p st' reply calls where c: "complete_request (ta_externals ?old) mo (ta_progress ?old) (se_state ?s) = Some (p, st')"
        "counted (ta_request ?old) p (as_metrics (se_state ?s)) (as_metrics st')"
        using complete_counted [OF old] True by metis
      let ?t = "?old\<lparr>ta_progress := p\<rparr>"
      obtain ops' where h: "as_metrics st' = metrics_run (ops @ ops') (metrics_new started_at)"
        "mset (map measured_as (recorded ops')) = answer_of ?t" "under_way (ta_request ?old) p"
        using counted_history [of ?t p _ "as_metrics st'" ops started_at] c(2) ops(1) by auto
      have "answer_of ?old = {#}" using True by (cases "ta_progress ?old") (auto simp: answer_of.simps)
      then have "answers ((se_tasks ?s)[i := ?t]) = answers (se_tasks ?s) + answer_of ?t" by (rule answers_update [OF i])
      then show ?thesis using Complete c i h ops tasks old
        by (auto simp: measured_def Let_def dest!: set_update_subset_insert [THEN subsetD] intro!: exI [of _ "ops @ ops'"])
    next
      case False
      then have "serving_step a ?s = ?s" using Complete by (auto simp: Let_def list_update_same_conv)
      then show ?thesis using snoc by simp
    qed
  next
    case (Admin_Call ex now inner req)
    have "as_metrics (snd (admin_middleware ex now inner req (se_state ?s))) = as_metrics (se_state ?s)"
      using snoc.prems Admin_Call
      by (auto simp: admin_middleware_def Let_def split: prod.splits result.splits error.splits)
        (metis app_state.select_convs(2) app_state.surjective app_state.update_convs(3) snd_conv)+
    then show ?thesis using Admin_Call tasks ops by (auto simp: measured_def)
  next
    case (Ticker now_secs)
    then show ?thesis using tasks ops by (auto simp: measured_def intro!: exI [of _ "ops @ [Tick now_secs]"])
  qed
qed

text \<open>
  C7: every answer is counted once. Let requests, calls of the admin API and the ticker interleave in any way
  on a newly created gateway. At every moment the metrics are those of some sequence of recordings and ticks
  in which the recorded methods, paths and status codes are exactly those of the requests answered so far; so the
  total and the count of every status code are the numbers of the answers, modulo \<open>2 ^ 64\<close>.
\<close>

theorem answers_counted:
  assumes "create_gateway config started_at = Ok g" "list_all proper as" "s = serving_run as (gw_state g)"
  shows "(\<exists>ops. as_metrics (se_state s) = metrics_run ops (metrics_new started_at) \<and>
      mset (map measured_as (recorded ops)) = answers (se_tasks s)) \<and>
    st_total_requests (as_metrics (se_state s)) = of_nat (size (answers (se_tasks s))) \<and>
    status_count (as_metrics (se_state s)) code = of_nat (size {#a \<in># answers (se_tasks s). snd (snd a) = code#})"
proof -
  have "as_metrics (gw_state g) = metrics_new started_at" using assms(1) by (auto simp: create_gateway_def)
  from serving_measured [OF this assms(2)] obtain ops where
    ops: "as_metrics (se_state s) = metrics_run ops (metrics_new started_at)"
      "mset (map measured_as (recorded ops)) = answers (se_tasks s)"
    using assms(3) by (auto simp: measured_def)
  have total: "size (answers (se_tasks s)) = length (recorded ops)"
    unfolding ops(2) [symmetric] by simp
  have "size {#a \<in># answers (se_tasks s). snd (snd a) = code#} = length (with_status code (recorded ops))"
    unfolding ops(2) [symmetric] with_status_def
    by (simp add: filter_mset_image_mset measured_as_def case_prod_unfold flip: mset_filter)
  then show ?thesis using ops total counters_run [of ops started_at code] by auto
qed

text \<open>Two requests under way at once, one of them to no route, while the ticker runs and the API is asked.\<close>

theorem answers_counted_witness:
  "\<exists>g s. create_gateway limited_config 0 = Ok g \<and>
     s = serving_run [Enter refusing noon (get_request ''/api''), Ticker 3, Enter refusing noon (get_request ''/none''),
       Admin_Call refusing 9 (\<lambda>st. (status_reply 200, st)) (get_request ''/admin/api/health''), Complete 0 noon] (gw_state g) \<and>
     status_count (as_metrics (se_state s)) 404 = of_nat (size {#a \<in># answers (se_tasks s). snd (snd a) = 404#})"
proof -
  obtain g where g: "create_gateway limited_config 0 = Ok g"
    by (simp add: create_gateway_def limited_config_def proxy_config_def minimal_config_def build_protocols_def)
  show ?thesis
    using sane_refusing answers_counted [OF g _ refl, of "[Enter refusing noon (get_request ''/api''), Ticker 3,
        Enter refusing noon (get_request ''/none''),
        Admin_Call refusing 9 (\<lambda>st. (status_reply 200, st)) (get_request ''/admin/api/health''), Complete 0 noon]" 404] g
    by (auto simp: proper_upgrade_def get_request_def)
qed

end
