(* ===== verification/Task_Runtime.thy ===== *)
theory Task_Runtime
  imports Lifecycle
begin

section \<open>The tasks of a running gateway\<close>

text \<open>
  What \<open>start\<close> spawns and \<open>stop\<close> waits for (\<open>src/core/gateway.rs\<close>): the server with its open connections, the
  ticker, and one task for each listener. Ticker and listeners are loops around \<open>tokio::select!\<close>: in every
  turn a new \<open>wait\<close> on the shutdown signal races with the work of the task, and is dropped when the work
  comes first. The server waits once; after the signal it accepts nothing more and ends with its last
  connection. Everything interleaves, step by step, with the three parts of \<open>stop\<close>: it
  latches the signal, notifies, and joins the tasks one after the other. That connections end and that
  timers fire is up to the environment.
\<close>

subsection \<open>Tasks\<close>

datatype task_state =
    Serving nat
  | Draining nat
  | Ticking
  | Listening listener_config listener_state
  | Completed

definition listener_loop :: "listener_config \<Rightarrow> listener_state \<Rightarrow> listener_event \<Rightarrow> listener_state" where
  "listener_loop l = (case l of
     ZmqPull cfg \<Rightarrow> pull_listener_step | MqttSub cfg \<Rightarrow> sub_listener_step | AmqpConsume cfg \<Rightarrow> consumer_listener_step)"

definition listening :: "listener_config \<Rightarrow> listener_state \<Rightarrow> task_state" where
  "listening l s = (if s = Stopped then Completed else Listening l s)"

fun spawn_task :: "gateway_task \<Rightarrow> task_state" where
  "spawn_task Server = Serving 0"
| "spawn_task Metrics_Ticker = Ticking"
| "spawn_task (Listener_Task l) =
     listening l (case l of MqttSub cfg \<Rightarrow> sub_listener_start cfg | _ \<Rightarrow> In_Session)"

definition drain :: "nat \<Rightarrow> task_state" where
  "drain connections = (if connections = 0 then Completed else Draining connections)"

text \<open>The branch of the shutdown signal.\<close>

fun shut_down :: "task_state \<Rightarrow> task_state" where
  "shut_down (Serving n) = drain n"
| "shut_down Ticking = Completed"
| "shut_down (Listening l s) = listening l (listener_loop l s Shutdown_Signalled)"
| "shut_down t = t"

fun waits :: "task_state \<Rightarrow> bool" where
  "waits (Serving n) = True"
| "waits Ticking = True"
| "waits (Listening l s) = True"
| "waits t = False"

subsection \<open>The runtime\<close>

datatype stop_progress = Not_Called | Latched | Joining "nat list"

record runtime =
  ru_signal :: shutdown_state
  ru_tasks :: "task_state list"
  ru_metrics :: metrics_store
  ru_stop :: stop_progress

datatype runtime_action =
    Accept nat
  | Close nat
  | Tick_Fires nat u64
  | Listener_Event nat listener_event
  | Poll nat
  | Break nat
  | Stop_Latch
  | Stop_Notify
  | Stop_Join

definition set_task :: "nat \<Rightarrow> task_state \<Rightarrow> runtime \<Rightarrow> runtime" where
  "set_task i t r = r\<lparr>ru_tasks := (ru_tasks r)[i := t]\<rparr>"

text \<open>The next turn of a loop: the old \<open>wait\<close> is dropped and a new one created.\<close>

definition next_turn :: "nat \<Rightarrow> runtime \<Rightarrow> runtime" where
  "next_turn i r = r\<lparr>ru_signal := (ru_signal r)\<lparr>sh_pc := (sh_pc (ru_signal r))(i := Enter)\<rparr>\<rparr>"

definition may_work :: "nat \<Rightarrow> runtime \<Rightarrow> bool" where
  "may_work i r \<longleftrightarrow> i < length (ru_tasks r) \<and> waits (ru_tasks r ! i) \<and> sh_pc (ru_signal r) i \<noteq> Returned"

fun runtime_step :: "runtime_action \<Rightarrow> runtime \<Rightarrow> runtime option" where
  "runtime_step (Accept i) r =
     (if may_work i r then
        (case ru_tasks r ! i of Serving n \<Rightarrow> Some (set_task i (Serving (Suc n)) r) | _ \<Rightarrow> None)
      else None)"
| "runtime_step (Close i) r =
     (if i < length (ru_tasks r) then
        (case ru_tasks r ! i of
           Serving (Suc n) \<Rightarrow> Some (set_task i (Serving n) r)
         | Draining (Suc n) \<Rightarrow> Some (set_task i (drain n) r)
         | _ \<Rightarrow> None)
      else None)"
| "runtime_step (Tick_Fires i now_secs) r =
     (if may_work i r \<and> ru_tasks r ! i = Ticking
      then Some (next_turn i (r\<lparr>ru_metrics := tick now_secs (ru_metrics r)\<rparr>)) else None)"
| "runtime_step (Listener_Event i e) r =
     (if may_work i r \<and> e \<noteq> Shutdown_Signalled then
        (case ru_tasks r ! i of
           Listening l s \<Rightarrow>
             if listener_loop l s e = s then None
             else Some (next_turn i (set_task i (listening l (listener_loop l s e)) r))
         | _ \<Rightarrow> None)
      else None)"
| "runtime_step (Poll i) r =
     (if may_work i r then map_option (\<lambda>s. r\<lparr>ru_signal := s\<rparr>) (wait_step i (ru_signal r)) else None)"
| "runtime_step (Break i) r =
     (if i < length (ru_tasks r) \<and> waits (ru_tasks r ! i) \<and> sh_pc (ru_signal r) i = Returned
      then Some (set_task i (shut_down (ru_tasks r ! i)) r) else None)"
| "runtime_step Stop_Latch r =
     (if ru_stop r = Not_Called
      then Some (r\<lparr>ru_signal := trigger_store (ru_signal r), ru_stop := Latched\<rparr>) else None)"
| "runtime_step Stop_Notify r =
     (if ru_stop r = Latched
      then Some (r\<lparr>ru_signal := notify_waiters (ru_signal r), ru_stop := Joining [0..<length (ru_tasks r)]\<rparr>) else None)"
| "runtime_step Stop_Join r =
     (case ru_stop r of
        Joining (i # is) \<Rightarrow> if ru_tasks r ! i = Completed then Some (r\<lparr>ru_stop := Joining is\<rparr>) else None
      | _ \<Rightarrow> None)"

fun runtime_run :: "runtime_action list \<Rightarrow> runtime \<Rightarrow> runtime option" where
  "runtime_run [] r = Some r"
| "runtime_run (a # as) r = Option.bind (runtime_step a r) (runtime_run as)"

text \<open>The runtime of a gateway that has just been started: its handles in the order in which \<open>stop\<close> joins them.\<close>

definition started_runtime :: "default_gateway \<Rightarrow> runtime" where
  "started_runtime g =
     \<lparr>ru_signal = shutdown_new, ru_tasks = map spawn_task (fst (gateway_stop g)),
      ru_metrics = as_metrics (gw_state g), ru_stop = Not_Called\<rparr>"

subsection \<open>The invariant\<close>

definition runtime_ok :: "runtime \<Rightarrow> bool" where
  "runtime_ok r \<longleftrightarrow> no_sleeper (ru_signal r) \<and> Draining 0 \<notin> set (ru_tasks r) \<and>
     (case ru_stop r of
        Not_Called \<Rightarrow> \<not> sh_triggered (ru_signal r) \<and> sh_notifying (ru_signal r) = 0
      | Latched \<Rightarrow> sh_triggered (ru_signal r) \<and> sh_notifying (ru_signal r) = 1
      | Joining js \<Rightarrow> sh_triggered (ru_signal r) \<and> sh_notifying (ru_signal r) = 0 \<and>
          set js \<subseteq> {..<length (ru_tasks r)} \<and> (\<forall>i < length (ru_tasks r). i \<in> set js \<or> ru_tasks r ! i = Completed))"

lemma shut_down_not_empty: "waits t \<Longrightarrow> shut_down t \<noteq> Draining 0"
  by (cases t) (auto simp: drain_def listening_def)

lemma set_task_ok:
  assumes "runtime_ok r" "t \<noteq> Draining 0" "ru_tasks r ! i \<noteq> Completed" "i < length (ru_tasks r)"
  shows "runtime_ok (set_task i t r)"
  using assms set_update_subset_insert [of "ru_tasks r" i t]
  by (auto simp: runtime_ok_def set_task_def nth_list_update split: stop_progress.splits)

lemma next_turn_ok: "runtime_ok r \<Longrightarrow> runtime_ok (next_turn i r)"
  by (auto simp: runtime_ok_def next_turn_def no_sleeper_def split: stop_progress.splits)

lemma metrics_ok_runtime: "runtime_ok r \<Longrightarrow> runtime_ok (r\<lparr>ru_metrics := m\<rparr>)"
  by (simp add: runtime_ok_def split: stop_progress.splits)

lemma wait_step_flags:
  "wait_step i s = Some s' \<Longrightarrow> sh_triggered s' = sh_triggered s \<and> sh_notifying s' = sh_notifying s"
  by (auto simp: wait_step_def split: wait_pc.splits if_splits)

lemma poll_ok:
  assumes "runtime_ok r" "wait_step i (ru_signal r) = Some s"
  shows "runtime_ok (r\<lparr>ru_signal := s\<rparr>)"
  using assms wait_step_flags [OF assms(2)] wait_step_no_sleeper [OF assms(2)]
  by (simp add: runtime_ok_def split: stop_progress.splits)

lemma waits_not_Done: "waits t \<Longrightarrow> t \<noteq> Completed"
  by (cases t) simp_all

lemma runtime_step_ok:
  assumes ok: "runtime_ok r" and step: "runtime_step a r = Some r'"
  shows "runtime_ok r'"
proof (cases a)
  case (Accept i)
  then show ?thesis using step ok
    by (auto simp: may_work_def split: if_splits task_state.splits intro!: set_task_ok)
next
  case (Close i)
  then show ?thesis using step ok
    by (auto simp: drain_def split: if_splits task_state.splits nat.splits intro!: set_task_ok)
next
  case (Tick_Fires i now)
  then show ?thesis using step ok by (auto split: if_splits intro!: next_turn_ok metrics_ok_runtime)
next
  case (Listener_Event i e)
  then show ?thesis using step ok
    by (auto simp: may_work_def listening_def split: if_splits task_state.splits intro!: next_turn_ok set_task_ok)
next
  case (Poll i)
  then show ?thesis using step poll_ok [OF ok] by (auto split: if_splits)
next
  case (Break i)
  then show ?thesis using step ok shut_down_not_empty waits_not_Done
    by (auto split: if_splits intro!: set_task_ok)
next
  case Stop_Latch
  then show ?thesis using step ok
    by (auto simp: runtime_ok_def trigger_store_def no_sleeper_def split: if_splits)
next
  case Stop_Notify
  then show ?thesis using step ok
    by (auto simp: runtime_ok_def notify_waiters_def no_sleeper_def atLeast0LessThan split: if_splits)
next
  case Stop_Join
  then show ?thesis using step ok
    by (auto simp: runtime_ok_def split: stop_progress.splits list.splits if_splits)
qed

lemma runtime_run_ok: "runtime_run as r = Some r' \<Longrightarrow> runtime_ok r \<Longrightarrow> runtime_ok r'"
  by (induction as arbitrary: r) (auto simp: bind_eq_Some_conv intro: runtime_step_ok)

lemma started_ok: "runtime_ok (started_runtime g)"
proof -
  have "spawn_task t \<noteq> Draining 0" for t by (cases t) (simp_all add: listening_def)
  then show ?thesis
    by (auto simp: runtime_ok_def started_runtime_def shutdown_new_def no_sleeper_def dest: sym)
qed

subsection \<open>Progress\<close>

fun steps_of :: "task_state \<Rightarrow> wait_pc \<Rightarrow> nat" where
  "steps_of (Serving n) pc = n + Suc (steps_left pc)"
| "steps_of Ticking pc = Suc (steps_left pc)"
| "steps_of (Listening l s) pc = Suc (steps_left pc)"
| "steps_of (Draining n) pc = n"
| "steps_of Completed pc = 0"

definition task_left :: "runtime \<Rightarrow> nat \<Rightarrow> nat" where
  "task_left r i = steps_of (ru_tasks r ! i) (sh_pc (ru_signal r) i)"

fun joins_left :: "stop_progress \<Rightarrow> nat" where
  "joins_left (Joining js) = length js"
| "joins_left _ = 0"

definition stop_left :: "runtime \<Rightarrow> nat" where
  "stop_left r = (\<Sum>i<length (ru_tasks r). task_left r i) + joins_left (ru_stop r)"

text \<open>The steps that bring \<open>stop\<close> closer to its end, and those of the tasks' other work.\<close>

fun progressing :: "runtime_action \<Rightarrow> bool" where
  "progressing (Close i) = True"
| "progressing (Poll i) = True"
| "progressing (Break i) = True"
| "progressing Stop_Join = True"
| "progressing a = False"

lemma sum_change:
  fixes f g :: "nat \<Rightarrow> nat"
  assumes "i < n" "\<And>j. j \<noteq> i \<Longrightarrow> f j = g j"
  shows "sum f {..<n} + g i = sum g {..<n} + f i"
proof -
  have "sum f ({..<n} - {i}) = sum g ({..<n} - {i})" using assms(2) by (intro sum.cong) auto
  then show ?thesis using assms(1) by (simp add: sum.remove [of "{..<n}" i])
qed

lemma stop_left_change:
  assumes "i < length (ru_tasks r)" "length (ru_tasks r') = length (ru_tasks r)" "ru_stop r' = ru_stop r"
    and "\<And>j. j \<noteq> i \<Longrightarrow> ru_tasks r' ! j = ru_tasks r ! j \<and> sh_pc (ru_signal r') j = sh_pc (ru_signal r) j"
  shows "stop_left r' + task_left r i = stop_left r + task_left r' i"
proof -
  have "task_left r' j = task_left r j" if "j \<noteq> i" for j using assms(4) [OF that] by (simp add: task_left_def)
  from sum_change [OF assms(1) this] show ?thesis using assms(2,3) by (simp add: stop_left_def)
qed

lemma set_task_left:
  assumes "i < length (ru_tasks r)"
  shows "stop_left (set_task i t r) + task_left r i = stop_left r + task_left (set_task i t r) i"
  using assms by (intro stop_left_change) (simp_all add: set_task_def)

lemma next_turn_left:
  assumes "i < length (ru_tasks r)"
  shows "stop_left (next_turn i r) + task_left r i = stop_left r + task_left (next_turn i r) i"
  using assms by (intro stop_left_change) (simp_all add: next_turn_def)

lemma poll_left:
  assumes "i < length (ru_tasks r)" "wait_step i (ru_signal r) = Some s" "awake (ru_signal r)" "waits (ru_tasks r ! i)"
  shows "Suc (stop_left (r\<lparr>ru_signal := s\<rparr>)) = stop_left r"
proof -
  have "stop_left (r\<lparr>ru_signal := s\<rparr>) + task_left r i = stop_left r + task_left (r\<lparr>ru_signal := s\<rparr>) i"
    using assms(1) wait_step_awake(3) [OF assms(2,3)] by (intro stop_left_change) simp_all
  moreover have "Suc (task_left (r\<lparr>ru_signal := s\<rparr>) i) = task_left r i"
    using assms(4) wait_step_awake(2) [OF assms(2,3)] by (cases "ru_tasks r ! i") (simp_all add: task_left_def)
  ultimately show ?thesis by simp
qed

lemma shut_down_left: "waits t \<Longrightarrow> shut_down t = Completed \<or> (\<exists>n. t = Serving n \<and> shut_down t = Draining n)"
proof (cases t)
  case (Listening l s)
  have "listener_loop l s Shutdown_Signalled = Stopped"
    by (cases l) (simp_all add: listener_loop_def pull_listener.stop sub_listener.stop consumer_listener.stop)
  then show ?thesis using Listening by (simp add: listening_def)
qed (simp_all add: drain_def)

text \<open>A step of progress takes one from what is left; other work adds at most two.\<close>

lemma runtime_step_left:
  assumes ok: "runtime_ok r" and joining: "ru_stop r = Joining js" and step: "runtime_step a r = Some r'"
  shows "if progressing a then Suc (stop_left r') = stop_left r else stop_left r' \<le> stop_left r + 2"
proof -
  have awake: "awake (ru_signal r)" using ok joining by (simp add: runtime_ok_def no_sleeper_def awake_def)
  show ?thesis
  proof (cases a)
    case (Accept i)
    then obtain n where t: "i < length (ru_tasks r)" "ru_tasks r ! i = Serving n" "r' = set_task i (Serving (Suc n)) r"
      using step by (auto simp: may_work_def split: if_splits task_state.splits)
    then show ?thesis using Accept set_task_left [OF t(1), of "Serving (Suc n)"]
      by (simp add: task_left_def) (simp add: set_task_def)
  next
    case (Close i)
    then obtain n where t: "i < length (ru_tasks r)"
      "ru_tasks r ! i = Serving (Suc n) \<and> r' = set_task i (Serving n) r \<or>
       ru_tasks r ! i = Draining (Suc n) \<and> r' = set_task i (drain n) r"
      using step by (auto split: if_splits task_state.splits nat.splits)
    then show ?thesis using Close set_task_left [OF t(1), of "Serving n"] set_task_left [OF t(1), of "drain n"]
      by (auto simp: task_left_def) (auto simp: set_task_def drain_def)
  next
    case (Tick_Fires i now)
    then have t: "i < length (ru_tasks r)" "ru_tasks r ! i = Ticking"
      "r' = next_turn i (r\<lparr>ru_metrics := tick now (ru_metrics r)\<rparr>)"
      using step by (auto simp: may_work_def split: if_splits)
    have "stop_left r' + task_left r i = stop_left r + task_left r' i"
      using t by (intro stop_left_change) (simp_all add: next_turn_def)
    moreover have "task_left r' i \<le> task_left r i + 2" using t by (simp add: task_left_def next_turn_def)
    ultimately show ?thesis using Tick_Fires by simp
  next
    case (Listener_Event i e)
    then obtain l s where t: "i < length (ru_tasks r)" "ru_tasks r ! i = Listening l s"
      "r' = next_turn i (set_task i (listening l (listener_loop l s e)) r)"
      using step by (auto simp: may_work_def split: if_splits task_state.splits)
    have "stop_left r' + task_left r i = stop_left r + task_left r' i"
      using t by (intro stop_left_change) (simp_all add: next_turn_def set_task_def)
    moreover have "task_left r' i \<le> task_left r i + 2"
      using t by (simp add: task_left_def next_turn_def set_task_def listening_def)
    ultimately show ?thesis using Listener_Event by simp
  next
    case (Poll i)
    then obtain s where t: "i < length (ru_tasks r)" "waits (ru_tasks r ! i)" "wait_step i (ru_signal r) = Some s"
      "r' = r\<lparr>ru_signal := s\<rparr>"
      using step by (auto simp: may_work_def split: if_splits)
    then show ?thesis using Poll poll_left [OF t(1,3) awake t(2)] by simp
  next
    case (Break i)
    then have t: "i < length (ru_tasks r)" "waits (ru_tasks r ! i)" "sh_pc (ru_signal r) i = Returned"
      "r' = set_task i (shut_down (ru_tasks r ! i)) r"
      using step by (auto split: if_splits)
    have "Suc (task_left r' i) = task_left r i"
      using t shut_down_left [OF t(2)] by (cases "ru_tasks r ! i") (auto simp: task_left_def set_task_def drain_def)
    then show ?thesis using Break t(4) set_task_left [OF t(1), of "shut_down (ru_tasks r ! i)"] by simp
  next
    case Stop_Join
    then show ?thesis using step joining
      by (auto simp: stop_left_def task_left_def split: list.splits if_splits)
  qed (use step joining in simp_all)
qed

lemma runtime_step_joining:
  "runtime_step a r = Some r' \<Longrightarrow> ru_stop r = Joining js \<Longrightarrow> \<exists>js'. ru_stop r' = Joining js'"
  by (cases a) (auto simp: set_task_def next_turn_def
      split: if_splits task_state.splits nat.splits stop_progress.splits list.splits)

lemma runtime_run_left:
  assumes "runtime_run as r = Some r'" "runtime_ok r" "ru_stop r = Joining js"
  shows "stop_left r' + length (filter progressing as)
    \<le> stop_left r + 2 * length (filter (\<lambda>a. \<not> progressing a) as) \<and> (\<exists>js'. ru_stop r' = Joining js')"
  using assms
proof (induction as arbitrary: r js)
  case (Cons a as)
  obtain r1 where step: "runtime_step a r = Some r1" and run: "runtime_run as r1 = Some r'"
    using Cons.prems(1) by (auto simp: bind_eq_Some_conv)
  obtain js1 where "ru_stop r1 = Joining js1" using runtime_step_joining [OF step Cons.prems(3)] by blast
  from Cons.IH [OF run runtime_step_ok [OF Cons.prems(2) step] this]
  show ?case using runtime_step_left [OF Cons.prems(2,3) step] by (auto split: if_splits)
qed simp

text \<open>Until everything is joined, somebody can make progress.\<close>

lemma not_stuck:
  assumes ok: "runtime_ok r" and joining: "ru_stop r = Joining (i # js)"
  shows "\<exists>a. progressing a \<and> runtime_step a r \<noteq> None"
proof -
  have i: "i < length (ru_tasks r)" using ok joining by (simp add: runtime_ok_def)
  have awake: "awake (ru_signal r)" using ok joining by (simp add: runtime_ok_def no_sleeper_def awake_def)
  consider "waits (ru_tasks r ! i)" "sh_pc (ru_signal r) i = Returned"
    | "waits (ru_tasks r ! i)" "sh_pc (ru_signal r) i \<noteq> Returned" | n where "ru_tasks r ! i = Draining n"
    | "ru_tasks r ! i = Completed"
    by (cases "ru_tasks r ! i") auto
  then show ?thesis
  proof cases
    case 1
    then show ?thesis using i by (intro exI [of _ "Break i"]) simp
  next
    case 2
    then have "wait_step i (ru_signal r) \<noteq> None"
      using awake by (cases "sh_pc (ru_signal r) i") (auto simp: wait_step_def awake_def)
    then show ?thesis using 2 i by (intro exI [of _ "Poll i"]) (simp add: may_work_def)
  next
    case (3 n)
    moreover have "n \<noteq> 0" using ok 3 nth_mem [OF i] by (cases n) (auto simp: runtime_ok_def)
    ultimately show ?thesis using i by (intro exI [of _ "Close i"]) (auto split: nat.split)
  next
    case 4
    then show ?thesis using joining by (intro exI [of _ Stop_Join]) simp
  qed
qed

text \<open>
  C11: stopping a gateway. Take a started gateway and any interleaving of its tasks with a call of
  \<open>stop\<close> that has notified. From then on, in every continuation: as long as \<open>stop\<close> has not returned,
  some task or \<open>stop\<close> itself has a step of progress, and there are never more such steps than what was left at
  the notification and two for every other event (a connection accepted, a tick, a broken session). When
  \<open>stop\<close> returns, every task that was started has ended.
\<close>

theorem stop_returns:
  assumes "runtime_run as (started_runtime g) = Some r" "ru_stop r = Joining js"
    and "runtime_run bs r = Some r'"
  shows "length (filter progressing bs) \<le> stop_left r + 2 * length (filter (\<lambda>a. \<not> progressing a) bs) \<and>
    ((\<exists>a. progressing a \<and> runtime_step a r' \<noteq> None) \<or> ru_stop r' = Joining []) \<and>
    (ru_stop r' = Joining [] \<longrightarrow> set (ru_tasks r') \<subseteq> {Completed})"
proof -
  have ok: "runtime_ok r" using runtime_run_ok [OF assms(1) started_ok] .
  then have ok': "runtime_ok r'" using runtime_run_ok [OF assms(3)] by blast
  obtain js' where js': "ru_stop r' = Joining js'" using runtime_run_left [OF assms(3) ok assms(2)] by blast
  have "(\<exists>a. progressing a \<and> runtime_step a r' \<noteq> None) \<or> ru_stop r' = Joining []"
    using js' not_stuck [OF ok'] by (cases js') auto
  moreover have "ru_stop r' = Joining [] \<longrightarrow> set (ru_tasks r') \<subseteq> {Completed}"
    using ok' by (auto simp: runtime_ok_def in_set_conv_nth)
  ultimately show ?thesis using runtime_run_left [OF assms(3) ok assms(2)] by auto
qed

text \<open>A gateway without listeners, stopped while a connection is open.\<close>

definition idle_gateway :: default_gateway where
  "idle_gateway = \<lparr>gw_host = ''::'', gw_port = 80, gw_protocols = [], gw_listeners = [],
     gw_state = fresh_state minimal_config, gw_shutdown = False,
     gw_runtime = \<lparr>rh_running = True, rh_server = Some Server, rh_metrics = Some Metrics_Ticker, rh_listeners = []\<rparr>\<rparr>"

theorem stop_returns_witness:
  "\<exists>r r'. runtime_run [Poll 0, Accept 0, Poll 1, Poll 1, Stop_Latch, Stop_Notify] (started_runtime idle_gateway) = Some r \<and>
     runtime_run [Poll 0, Break 0, Tick_Fires 1 9, Close 0, Stop_Join, Poll 1, Poll 1, Break 1, Stop_Join] r = Some r' \<and>
     set (ru_tasks r') \<subseteq> {Completed}"
proof -
  let ?as = "[Poll 0, Accept 0, Poll 1, Poll 1, Stop_Latch, Stop_Notify]"
  let ?bs = "[Poll 0, Break 0, Tick_Fires 1 9, Close 0, Stop_Join, Poll 1, Poll 1, Break 1, Stop_Join]"
  note run_defs = started_runtime_def idle_gateway_def gateway_stop_def shutdown_new_def wait_step_def
    is_triggered_def trigger_store_def notify_waiters_def may_work_def set_task_def next_turn_def drain_def Let_def
  obtain r where r: "runtime_run ?as (started_runtime idle_gateway) = Some r" and joining: "ru_stop r = Joining [0, 1]"
    by (simp add: run_defs upt_rec)
  have "\<exists>r'. runtime_run ?bs r = Some r' \<and> ru_stop r' = Joining []"
    using r by (auto simp: run_defs upt_rec)
  then obtain r' where r': "runtime_run ?bs r = Some r'" "ru_stop r' = Joining []" by blast
  show ?thesis using stop_returns [OF r joining r'(1)] r r' by blast
qed

end
