(* ===== verification/Licences.thy ===== *)
theory Licences
  imports Config
begin

section \<open>The licence script (scripts/create\_licenses.rs)\<close>

text \<open>
  The script writes one text file for each dependency that \<open>cargo license\<close> reports, and an index.
  Creating the directory, running cargo and reading its output are parameters; so is the outcome of
  writing a file, which may fail and then leaves some part of it behind.
\<close>

subsection \<open>File names and contents\<close>

definition sanitize_filename :: "string \<Rightarrow> string" where
  "sanitize_filename name =
     (let s = str_replace ''/'' ''_'' name;
          s = str_replace [CHR 92] ''_'' s;
          s = str_replace '':'' ''_'' s;
          s = str_replace ''*'' ''_'' s;
          s = str_replace ''?'' ''_'' s;
          s = str_replace ''<'' ''_'' s;
          s = str_replace ''>'' ''_'' s
      in str_replace ''|'' ''_'' s)"

definition dep_field :: "json \<Rightarrow> string \<Rightarrow> string \<Rightarrow> string" where
  "dep_field dep key fallback =
     (case Option.bind (json_get dep key) json_as_str of Some s \<Rightarrow> s | None \<Rightarrow> fallback)"

definition writeln :: "string \<Rightarrow> string" where
  "writeln line = line @ [CHR 10]"

definition license_filename :: "json \<Rightarrow> string" where
  "license_filename dep =
     sanitize_filename (dep_field dep ''name'' ''unknown'') @ ''-'' @ dep_field dep ''version'' ''unknown''
       @ ''.txt''"

definition license_text :: "json \<Rightarrow> string" where
  "license_text dep =
     (let name = dep_field dep ''name'' ''unknown'';
          version = dep_field dep ''version'' ''unknown'';
          license = dep_field dep ''license'' ''NO-LICENSE'';
          repo = dep_field dep ''repository'' ''NO-REPO'';
          authors = dep_field dep ''authors'' ''N/A'';
          desc = dep_field dep ''description'' ''N/A''
      in concat (map writeln
        [''License Information for '' @ name @ '' v'' @ version,
         replicate 50 CHR ''='', [],
         ''Crate: '' @ name, ''Version: '' @ version, ''License: '' @ license, ''Repository: '' @ repo,
         ''Authors: '' @ authors, [],
         ''Description:'', desc, [],
         replicate 50 CHR ''='', [],
         ''For the full license text, please refer to:'',
         ''- The repository URL above'',
         ''- https://crates.io/crates/'' @ name,
         ''- The LICENSE or LICENSE-* files in the repository'']))"

definition index_text :: "string list \<Rightarrow> string" where
  "index_text created_files =
     concat (map writeln
       ([''License Files Directory'', ''======================='', [],
         ''This directory contains license information for all dependencies.'', [],
         ''Total dependencies: '' @ show_nat (length created_files), [], ''Files:'']
        @ map (\<lambda>filename. ''  - '' @ filename) created_files
        @ [[], ''Generated by: cargo-license'', [],
           ''To regenerate, run: cargo run --bin create_licenses'']))"

subsection \<open>The run\<close>

text \<open>
  A write succeeds, or fails with an error and leaves the file with some content, or absent.
\<close>

datatype write_outcome = Written | Write_Failed string "string option"

type_synonym file_system = "string \<rightharpoonup> string"

definition write_file ::
  "(string \<Rightarrow> string \<Rightarrow> write_outcome) \<Rightarrow> string \<Rightarrow> string \<Rightarrow> file_system \<Rightarrow> (string + unit) \<times> file_system" where
  "write_file io path text fs =
     (case io path text of
        Written \<Rightarrow> (Inr (), fs(path \<mapsto> text))
      | Write_Failed e rest \<Rightarrow> (Inl e, fs(path := rest)))"

fun write_licenses ::
  "(string \<Rightarrow> string \<Rightarrow> write_outcome) \<Rightarrow> json list \<Rightarrow> string list \<Rightarrow> file_system
     \<Rightarrow> (string + string list) \<times> file_system" where
  "write_licenses io [] created_files fs = (Inr created_files, fs)"
| "write_licenses io (dep # deps) created_files fs =
     (case write_file io (''licenses/'' @ license_filename dep) (license_text dep) fs of
        (Inl e, fs') \<Rightarrow> (Inl e, fs')
      | (Inr _, fs') \<Rightarrow> write_licenses io deps (created_files @ [license_filename dep]) fs')"

definition create_licenses ::
  "string + unit \<Rightarrow> string + json list \<Rightarrow> (string \<Rightarrow> string \<Rightarrow> write_outcome) \<Rightarrow> file_system
     \<Rightarrow> (string + string) \<times> file_system" where
  "create_licenses create_dir cargo_output io fs =
     (case create_dir of
        Inl e \<Rightarrow> (Inl e, fs)
      | Inr _ \<Rightarrow>
          (case cargo_output of
             Inl e \<Rightarrow> (Inl e, fs)
           | Inr deps \<Rightarrow>
               (case write_licenses io deps [] fs of
                  (Inl e, fs1) \<Rightarrow> (Inl e, fs1)
                | (Inr created_files, fs1) \<Rightarrow>
                    (case write_file io ''licenses/README.txt'' (index_text created_files) fs1 of
                       (Inl e, fs2) \<Rightarrow> (Inl e, fs2)
                     | (Inr _, fs2) \<Rightarrow>
                         (Inr (''Created '' @ show_nat (length created_files)
                            @ '' license files in licenses/''), fs2)))))"

subsection \<open>What is written\<close>

lemma str_replace_char: "str_replace [c] [d] s = map (\<lambda>x. if x = c then d else x) s"
proof (induction s)
  case (Cons x s)
  show ?case
  proof (cases "x = c")
    case True
    then show ?thesis using Cons str_replace_prefix [of "[c]" "[d]" s] by simp
  next
    case False
    then show ?thesis using Cons by (simp add: str_replace_skip)
  qed
qed simp

definition reserved :: "char set" where
  "reserved = {CHR ''/'', CHR 92, CHR '':'', CHR ''*'', CHR ''?'', CHR ''<'', CHR ''>'', CHR ''|''}"

text \<open>The eight passes are one pass that replaces each reserved character.\<close>

lemma sanitize_filename_eq: "sanitize_filename name = map (\<lambda>c. if c \<in> reserved then CHR ''_'' else c) name"
  by (simp add: sanitize_filename_def str_replace_char reserved_def)

lemma sanitize_filename_reserved: "c \<in> set (sanitize_filename name) \<Longrightarrow> c \<notin> reserved"
  by (auto simp: sanitize_filename_eq reserved_def split: if_splits)

lemma write_licenses_Inr:
  "write_licenses io deps created fs = (Inr files, fs') \<Longrightarrow> files = created @ map license_filename deps"
proof (induction deps arbitrary: created fs)
  case (Cons dep deps)
  then obtain fs1 where "write_licenses io deps (created @ [license_filename dep]) fs1 = (Inr files, fs')"
    by (auto simp: write_file_def split: write_outcome.splits)
  from Cons.IH [OF this] show ?case by simp
qed simp

lemma write_licenses_touches:
  assumes "write_licenses io deps created fs = (res, fs')" "p \<notin> (\<lambda>d. ''licenses/'' @ license_filename d) ` set deps"
  shows "fs' p = fs p"
  using assms
  by (induction deps arbitrary: created fs)
    (auto simp: write_file_def split: write_outcome.splits)

text \<open>
  The script stays in its directory. If no version holds a slash, every file it touches, also when
  it fails half-way, lies directly in \<open>licenses/\<close>, whatever the names of the crates are.
\<close>

lemma licenses_confined:
  assumes "create_licenses create_dir (Inr deps) io fs = (res, fs')"
    and "\<forall>dep \<in> set deps. CHR ''/'' \<notin> set (dep_field dep ''version'' ''unknown'')"
    and "fs' p \<noteq> fs p"
  shows "\<exists>filename. p = ''licenses/'' @ filename \<and> CHR ''/'' \<notin> set filename"
proof -
  have flat: "CHR ''/'' \<notin> set (license_filename dep)" if "dep \<in> set deps" for dep
    using assms(2) that sanitize_filename_reserved
    by (auto simp: license_filename_def reserved_def)
  have "p = ''licenses/README.txt'' \<or> p \<in> (\<lambda>d. ''licenses/'' @ license_filename d) ` set deps"
  proof (rule ccontr)
    assume out: "\<not> ?thesis"
    obtain r1 fs1 where w: "write_licenses io deps [] fs = (r1, fs1)" by force
    have "fs1 p = fs p" using write_licenses_touches [OF w] out by simp
    then show False using assms(1,3) w out
      by (auto simp: create_licenses_def write_file_def split: sum.splits write_outcome.splits)
  qed
  then show ?thesis
  proof
    assume "p = ''licenses/README.txt''"
    then show ?thesis by (intro exI [of _ "''README.txt''"]) simp
  next
    assume "p \<in> (\<lambda>d. ''licenses/'' @ license_filename d) ` set deps"
    then show ?thesis using flat by blast
  qed
qed

text \<open>After a run without errors the index lists the file of every dependency, in order, and the message counts them.\<close>

lemma create_licenses_files:
  assumes "create_licenses create_dir (Inr deps) io fs = (Inr msg, fs')"
  shows "fs' ''licenses/README.txt'' = Some (index_text (map license_filename deps))"
    and "msg = ''Created '' @ show_nat (length deps) @ '' license files in licenses/''"
  using assms write_licenses_Inr
  by (fastforce simp: create_licenses_def write_file_def split: sum.splits prod.splits write_outcome.splits)+

end
