(* ===== verification/Source_Tests.thy ===== *)
theory Source_Tests
  imports Lifecycle Websocket Load_Gen
begin

section \<open>The unit tests of the source, run on the model\<close>

text \<open>
  The inline tests of the Rust modules that exercise pure functions, with their inputs and the results
  they assert: the model passes them too. Each lemma is named after the module whose tests it takes
  over; \<open>failed_with\<close> is the tests' way of looking for a phrase in an error message.
\<close>

definition failed_with :: "string \<Rightarrow> 'a result \<Rightarrow> bool" where
  "failed_with phrase res = (case res of Ok _ \<Rightarrow> False | Err e \<Rightarrow> str_contains (error_to_string e) phrase)"

subsection \<open>src/protocols/http.rs\<close>

lemma http_tests_headers:
  "map fst (strip_hop_by_hop_headers
     [(''connection'', ''keep-alive''), (''keep-alive'', ''timeout=5''), (''proxy-authenticate'', ''Basic''),
      (''proxy-authorization'', ''Basic xyz''), (''te'', ''trailers''), (''trailers'', ''Expires''),
      (''transfer-encoding'', ''chunked''), (''upgrade'', ''websocket''),
      (''content-type'', ''application/json''), (''authorization'', ''Bearer token'')])
     = [''content-type'', ''authorization'']"
  "length (strip_hop_by_hop_headers [(''content-type'', ''application/json''), (''x-request-id'', ''abc-123''), (''accept'', ''*/*'')]) = 3"
  "strip_hop_by_hop_headers [(''Connection'', ''close''), (''Transfer-Encoding'', ''chunked''), (''Content-Type'', ''text/plain'')]
     = [(''Content-Type'', ''text/plain'')]"
  "strip_hop_by_hop_headers [] = []"
  by code_simp+

lemma http_tests_traversal:
  "list_all path_contains_traversal
     [''/../etc/passwd'', ''/api/../secret'', ''/%2e%2e/etc/passwd'', ''/%2E%2E/etc/passwd'', ''/.%2e/etc'', ''/%2e./etc'',
      ''/%252e%252e/etc'', ''/foo%2f..%2fbar'', ''/foo/..%2fbar'', ''/%2e%2e%2fetc%2fpasswd'']"
  "list_all (\<lambda>p. \<not> path_contains_traversal p) [''/api/users'', ''/'', ''/api/v2'', ''/foo.bar/baz'']"
  by code_simp+

lemma http_tests_safe:
  "list_all path_is_safe [''/'', ''/api/v1/users'', ''/pkg.Service/Method'', ''/items/42'']"
  "list_all (\<lambda>p. \<not> path_is_safe p)
     [''@evil.com'', ''evil.com/path'', ''/foo'' @ [CHR 13, CHR 10] @ ''Host: evil'', ''/foo bar'',
      ''/foo'' @ [CHR 92] @ ''bar'', ''/foo'' @ [CHR 9] @ ''bar'']"
  "list_all query_is_safe [''a=1&b=2'', ''filter=name%20eq%20bob'', []]"
  "list_all (\<lambda>q. \<not> query_is_safe q) [''a=1'' @ [CHR 13, CHR 10] @ ''Host: evil'', ''a=1 2'']"
  by code_simp+

lemma http_tests_body:
  "failed_with ''body too large'' (http_encode (replicate (10 * 1024 * 1024 + 1) 0))"
  "is_ok (http_encode (replicate (10 * 1024 * 1024) 0))" "http_encode [] = Ok []"
  "failed_with ''body too large'' (http_decode (replicate (10 * 1024 * 1024 + 1) 0))"
  by (simp_all add: http_encode_def http_decode_def MAX_BODY_SIZE_def failed_with_def)

subsection \<open>src/protocols/grpc.rs\<close>

lemma grpc_tests_encode:
  "encode_grpc_frame (as_bytes ''hello'') = [0, 0, 0, 0, 5] @ as_bytes ''hello''"
  "encode_grpc_frame [] = [0, 0, 0, 0, 0]"
  by (simp_all add: encode_grpc_frame_def u32_to_be_bytes_def as_bytes_def)

lemma grpc_tests_decode:
  "failed_with ''too short'' (decode_grpc_frames [0, 0])"
  "failed_with ''compression'' (decode_grpc_frames [1, 0, 0, 0, 4, 100, 97, 116, 97])"
  "failed_with ''truncated'' (decode_grpc_frames [0, 0, 0, 0, 100, 0, 0, 0])"
  "decode_grpc_frames [] = Ok []"
  by (simp_all add: decode_grpc_frames_def decode_frames_loop.simps failed_with_def GRPC_HEADER_LEN_def Let_def
      frame_end_def u32_from_be_bytes_def checked_add_usize_def)

subsection \<open>src/core/router.rs\<close>

lemma router_tests:
  "map_option rc_path (route (router_new [http_route ''/api'' [''GET''], http_route ''/api/v1'' [''GET'']]) ''GET'' ''/api/v1/users'')
     = Some ''/api/v1''"
  "route (router_new [http_route ''/api'' [''GET'']]) ''GET'' ''/apiv2'' = None"
  "route (router_new [http_route ''/'' []]) (''GET'' @ [CHR 13, CHR 10] @ ''X-Injected: bad'') ''/'' = None"
  "route (router_new [http_route ''/health'' []]) ''DELETE'' ''/health'' \<noteq> None"
  "route (router_new [http_route ''/upnp'' [''M-SEARCH'']]) ''M-SEARCH'' ''/upnp'' \<noteq> None"
  "route (router_new [http_route ''/'' []]) [] ''/'' = None"
  by code_simp+

subsection \<open>src/core/middleware/auth.rs and src/core/gateway.rs\<close>

lemma auth_tests:
  "constant_time_eq ''s3cret'' ''s3cret'' \<and> constant_time_eq [] []"
  "list_all (\<lambda>s. \<not> constant_time_eq ''s3cret'' s) [''s3cres'', ''S3cret'', ''s3cret '', [], ''s3'']"
  "\<not> constant_time_eq ''s3'' ''s3cret''"
  by code_simp+

lemma forwarded_for_tests:
  "set_forwarded_for [(''accept'', ''*/*'')] ''203.0.113.7'' = [(''accept'', ''*/*''), (''x-forwarded-for'', ''203.0.113.7'')]"
  "set_forwarded_for [(''X-Forwarded-For'', ''1.2.3.4''), (''accept'', ''*/*''), (''x-forwarded-for'', ''5.6.7.8'')] ''203.0.113.7''
     = [(''accept'', ''*/*''), (''x-forwarded-for'', ''203.0.113.7'')]"
  "set_forwarded_for [(''X-Forwarded-For'', ''1.2.3.4'')] [] = []"
  by code_simp+

subsection \<open>src/gateway\<close>

lemma upstream_tests:
  "failed_with ''invalid path'' (http_assemble ''GET'' ''http://127.0.0.1:9000'' ''/../etc/passwd'' None [] [] 5)"
  "failed_with ''invalid path'' (http_assemble ''GET'' ''http://127.0.0.1:9000'' ''/api/../secrets'' None [] [] 5)"
  "failed_with ''http://'' (http_assemble ''GET'' ''file:///etc/passwd'' ''/'' None [] [] 5)"
  "failed_with ''http://'' (http_assemble ''GET'' ''ftp://internal-server/data'' ''/'' None [] [] 5)"
  "failed_with ''invalid path'' (http_assemble ''GET'' ''http://127.0.0.1:9000'' ''@evil.com/'' None [] [] 5)"
  "failed_with ''invalid query'' (http_assemble ''GET'' ''http://127.0.0.1:9000'' ''/api'' (Some (''a=1'' @ [CHR 13, CHR 10] @ ''Host: evil'')) [] [] 5)"
  "failed_with ''invalid path'' (http_assemble ''GET'' ''http://127.0.0.1:9000'' ''/%2e%2e/etc/passwd'' None [] [] 5)"
  "is_ok (http_assemble ''GET'' ''https://127.0.0.1:19999'' ''/'' None [] [] 1)"
  "failed_with ''http://'' (graphql_assemble ''file:///etc/passwd'' [] (as_bytes ''{}'') 5)"
  "failed_with ''http://'' (graphql_assemble ''ftp://internal/graphql'' [] (as_bytes ''{}'') 5)"
  "failed_with ''http://'' (grpc_assemble ''file:///etc/passwd'' ''/pkg.Svc/Method'' [] [] 5)"
  "failed_with ''invalid path'' (grpc_assemble ''http://127.0.0.1:50051'' ''/../etc/passwd'' [] [] 5)"
  "is_ok (grpc_assemble ''http://127.0.0.1:19998'' ''/helloworld.Greeter/SayHello'' [] [] 1)"
  by code_simp+

lemma address_tests:
  "normalize_ws_url ''ws://host:8080/path'' = Inr ''ws://host:8080/path''"
  "normalize_ws_url ''wss://host:443/path'' = Inr ''wss://host:443/path''"
  "normalize_ws_url ''http://host:8080'' = Inr ''ws://host:8080''" "normalize_ws_url ''https://host:443'' = Inr ''wss://host:443''"
  "normalize_ws_url ''host:8080'' = Inr ''ws://host:8080''" "isl (normalize_ws_url ''ftp://host/path'')"
  "to_tcp_addr ''zmq://127.0.0.1:5555'' = ''tcp://127.0.0.1:5555''" "to_tcp_addr ''tcp://127.0.0.1:5555'' = ''tcp://127.0.0.1:5555''"
  by code_simp+

lemma broker_tests:
  "parse_broker_url ''mqtt://broker.local:1883'' = Ok \<lparr>be_host = ''broker.local'', be_port = 1883, be_tls = False\<rparr>"
  "parse_broker_url ''mqtts://broker.local:8883'' = Ok \<lparr>be_host = ''broker.local'', be_port = 8883, be_tls = True\<rparr>"
  "\<not> is_ok (parse_broker_url ''mqtt://broker.local'')" "qos_from_u8 2 = Ok ExactlyOnce" "\<not> is_ok (qos_from_u8 3)"
  by (simp_all add: parse_broker_url_def broker_scheme_def split_host_port_def strip_prefix_str_def qos_from_u8_def
      split_at_last_def split_at_first.simps parse_unsigned_def is_ascii_digit_def byte_of_def digits_value_def)

end
