(* ===== verification/Spec2Isabelle.thy ===== *)
theory Spec2Isabelle
  imports Gateway_App Metrics_Concurrent Websocket Amqp_Queue Entry_Point Admin_Json Served_Metrics Task_Runtime Licences Source_Tests
begin

text \<open>
  IronBabel: a verification library.

  \<^bold>\<open>The program.\<close> IronBabel is a gateway written in Rust. It accepts HTTP requests, finds the route that
  matches method and path, runs a chain of middleware (logging, authentication, rate limiting) and
  hands the request on to the transport of the route: an HTTP, GraphQL or gRPC backend, a WebSocket
  backend, an MQTT or AMQP broker or a ZeroMQ socket. Listeners work in the other direction: they
  receive messages from ZeroMQ, MQTT or AMQP and post them to an HTTP target. Every request is
  measured, and an admin API shows the measurements and keeps a configuration and its draft. A shared
  signal stops the tasks.

  \<^bold>\<open>How the theories correspond to the code.\<close> Each theory follows the order of the functions it models;
  names are those of the source, with a prefix where several modules share one, and the fields of
  records carry a two-letter prefix.

    \<^item> \<open>Babel_Prelude\<close>: the machine types, Rust's string functions (\<open>starts_with\<close>, \<open>strip_prefix\<close>,
      \<open>replace\<close>, \<open>split\<close>, \<open>trim\<close>, number printing and parsing) and the lemmas on them that
      the components share.
    \<^item> \<open>Errors\<close>: \<open>src/error.rs\<close>. The error type with its messages, \<open>Result\<close> and the propagation by
      \<open>?\<close> (\<open>and_then\<close>, \<open>for_each_ok\<close>).
    \<^item> \<open>Config\<close>: \<open>src/config\<close>. The configuration records, \<open>validate\<close> with every check in
      its order, loading and the overrides from the environment. Validation accepts exactly the
      well-formed configurations.
    \<^item> \<open>Config_Json\<close>: what serde derives for the same types, from and to trees of JSON: tags in snake case,
      defaults, unknown and repeated keys. Every codec is an instance of one interface and reads back what
      it writes.
    \<^item> \<open>Router\<close>: \<open>src/core/router.rs\<close>. Routes sorted by length, \<open>route\<close>. The longest prefix by
      whole segments wins.
    \<^item> \<open>Http_Protocol\<close>, \<open>Grpc_Frames\<close>, \<open>Protocols\<close>: \<open>src/protocols\<close>. The traversal check (a loop with its
      termination proof, equal to nondeterministic decoding), hop-by-hop headers, gRPC frames over
      32-bit words, and the seven codecs under one interface with their round trip.
    \<^item> \<open>Middleware\<close>: \<open>src/core/middleware\<close> and \<open>build_middleware_chain\<close>. Authentication by constant-time
      comparison, the sliding-window limiter with eviction as a refinement of one that
      forgets nothing, and the chain as an interpreted interface.
    \<^item> \<open>Float64\<close>: IEEE double precision on rationals, rounding to nearest even, as far as the code's
      statistics need it: they are never subnormal and never overflow.
    \<^item> \<open>Metrics\<close>: \<open>src/admin/store.rs\<close>. All critical sections of \<open>record_request\<close>, \<open>tick\<close> and the readers,
      proved against the history of recorded requests.
    \<^item> \<open>Metrics_Concurrent\<close>: the same store under concurrent recordings, whose critical sections interleave
      with each other and with the ticker. When all are done, the counters and statistics are those of a
      sequential recording.
    \<^item> \<open>Admin\<close>: \<open>src/admin\<close>. The store of active and draft configuration, the handlers and the routing
      table; validity under every interleaving.
    \<^item> \<open>Live_Events\<close>: the event stream of the dashboard, \<open>subscribe\<close> and \<open>admin_events\<close>.
    \<^item> \<open>Http_Upstreams\<close>: \<open>src/gateway/http.rs\<close>, \<open>graphql.rs\<close>, \<open>grpc.rs\<close>. Assembly of the backend's
      request and collection of its response; what a client can influence of the URL.
    \<^item> \<open>Websocket\<close>: \<open>src/gateway/ws.rs\<close>. Conversion of messages and the two pumps, each suspended in one of its awaits
      (next item, sending, closing the sink) until \<open>select!\<close> drops the slower one; what every run carries.
    \<^item> \<open>Brokers\<close>: publishing in \<open>src/gateway/mqtt.rs\<close>, \<open>amqp.rs\<close>, \<open>zmq.rs\<close>: the operations in their order, and
      when a publish reports success, stated with explicit addresses, events and properties.
    \<^item> \<open>Listeners\<close>: the listeners of the same files, acknowledgement and supervision.
    \<^item> \<open>Listener_Runs\<close>: the listeners from their start to the shutdown, over all their sessions: they post to their
      target only, and settle a message after its post and by its outcome. The answers of the target and the
      broker may depend on all that the listener did before.
    \<^item> \<open>Amqp_Queue\<close>: the consumer against a broker that puts messages back when they were rejected, when the
      settling call failed or when a connection was lost; every queue is emptied.
    \<^item> \<open>Request_Handling\<close>: \<open>handle_request\<close>, its dispatch functions and \<open>admin_middleware\<close> in
      \<open>src/core/gateway.rs\<close>, on top of all the above.
    \<^item> \<open>Lifecycle\<close>: \<open>src/core/shutdown.rs\<close> as a state machine of interleaved waiters, and \<open>create_gateway\<close>,
      \<open>start\<close> and \<open>stop\<close>.
    \<^item> \<open>Task_Runtime\<close>: the tasks \<open>start\<close> spawns, interleaved with \<open>stop\<close>, which always gets to its end.
    \<^item> \<open>Config_Forms\<close>: the JSON form in use. The templates of the admin API are valid, what it shows can be
      saved again, and the shipped \<open>config/gateway.yaml\<close> starts a gateway.
    \<^item> \<open>Admission\<close>: what one request does to the limiter, shared by the theories on runs.
    \<^item> \<open>Concurrent_Requests\<close>: \<open>handle_request\<close> in the two parts between which other requests run, and the rate
      limit under every interleaving.
    \<^item> \<open>State_Invariant\<close>: the well-formedness of the shared state, kept by all of them.
    \<^item> \<open>Served_Metrics\<close>: what the metrics hold under every interleaving, exactly the answers given.
    \<^item> \<open>Gateway_App\<close>: the router that \<open>start\<close> hands to the server, admin API and routes in one. Only an admitted
      administrator changes the configurations, and every request of every sequence is answered.
    \<^item> \<open>Admin_Json\<close>: \<open>src/admin/types.rs\<close> as JSON, and a client that reads, edits and sends back what the application
      shows. \<open>Json_Bytes\<close> is a printer and a parser of JSON for examples.
    \<^item> \<open>Entry_Point\<close>: \<open>src/utils/logging.rs\<close> and \<open>src/main.rs\<close>, the program from start to exit.
    \<^item> \<open>Load_Gen\<close>: \<open>src/bin/load_gen.rs\<close>. Command line, mock backend, traffic pump, statistics and the
      run up to them; the load is spread evenly over the routes.
    \<^item> \<open>Licences\<close>: \<open>scripts/create_licenses.rs\<close>. The files the script writes, all in its directory.
    \<^item> \<open>Source_Tests\<close>: the unit tests of the source's modules, evaluated on the definitions.
    \<^item> this theory: runs of a whole gateway, and how validation of a configuration relates to the
      checks the transports repeat.

  \<^bold>\<open>State.\<close> \<open>app_state\<close> is the \<open>AppState\<close> of the source without its clients: router, metrics, middleware
  chain (with the limiter's map in it), configuration store and the counter for client ids. A handler
  takes the state and returns the reply, the new state and the list of calls made to other systems.
  A panic is the absence of a result, and \<open>handle_request\<close> is proved to have one always.

  \<^bold>\<open>Parameters.\<close> What other crates and systems do is an argument: the HTTP client as a function from the
  request to a response or an error, brokers as the outcomes of their operations (for AMQP given the operations
  before), the
  parsers of JSON and YAML text, the clock as instants in nanoseconds, the operating system's answer to a bind, axum's matching of
  paths and methods, what a subscriber reads from a broadcast channel, the standard library's hasher. Where a
  theorem relies on them the hypothesis is named, such as \<open>sane\<close>: responses have a status the http
  crate accepts, and headers that read as text can be sent on.

  \<^bold>\<open>Loops and time.\<close> No definition of the program has fuel: only the parser of \<open>Json_Bytes\<close>, for which the
  length of its input is enough, and the number of deliveries in \<open>Amqp_Queue\<close>, for which twice the length of the
  queue and the number of failing acknowledgements is. The loops of the listeners, the publishers and the
  WebSocket pumps run over the finite list of events they receive, at the end of which they wait; a
  timeout is an outcome of the step that hangs. The traversal check and the frame decoder are total
  functions with their measures. Counters have the width of the code's and wrap where it wraps.

  \<^bold>\<open>Concurrency.\<close> A critical section is one step. Interleavings are explicit where they matter: the
  admin API's saves and activations, the waiters of the shutdown signal, the two directions of a
  WebSocket session, the critical sections of concurrent recordings, the workers of the load generator, the
  tasks of a running gateway and the call that stops them, and
  the requests themselves: in \<open>Concurrent_Requests\<close> any number of other requests fall between the limiter's
  decision on a request and its dispatch. A dispatch and the recording of its outcome are there one
  step, which \<open>Metrics_Concurrent\<close> takes apart. In the runs of this theory and of \<open>Gateway_App\<close> requests
  are taken one after the other.

  \<^bold>\<open>Not modelled.\<close> Sockets, TLS and the HTTP implementation (hyper, axum, reqwest), the page of the
  dashboard, the tracing output except the request log lines of the middleware, the text of YAML
  and JSON and its parsing, which of several errors in a configuration serde reports, and what the load
  generator prints. The modules' constructors and accessors without behaviour
  of their own have no definitions.

  \<^bold>\<open>Findings.\<close> WebSocket routes are served before the middleware chain, so authentication and rate
  limits do not apply to them (\<open>websocket_bypasses_middleware\<close>); a start that runs while a stop is
  waiting can take the signal back (\<open>reset_loses_shutdown\<close>); an HTTP target without a
  host passes validation and lets the path choose the host (\<open>hostless_base_url\<close>); an MQTT address
  without a port passes validation and fails at every publish (\<open>parse_broker_url_needs_port\<close>); the
  limit on tracked clients only triggers eviction (\<open>tracked_clients_count\<close>); the admin API reads the number
  of requests before that of errors, so that under load the error rate it shows may exceed 1
  (\<open>error_rate_race\<close>); the documented names \<open>graphql\<close> and \<open>websocket\<close> of transports are refused, the code reads
  \<open>graph_q_l\<close> and \<open>web_socket\<close> (\<open>documented_names_refused\<close>); the load generator's random numbers reach 1 (\<open>frand_range\<close>).

  \<^bold>\<open>Where documentation and code differ.\<close> The theorems follow the code. The documents under \<open>docs\<close> say that the admin
  API is not subject to authentication (it is: \<open>config_changes_admitted\<close>, \<open>admin_api_protected\<close>); that malformed gRPC
  responses decode to nothing (they are errors: \<open>decode_grpc_frames_Ok_iff\<close>); that every failed delivery is put back
  into its queue (a redelivered one is rejected for good: \<open>consumer_settles_after_post\<close>, \<open>queue_drained\<close>); that keys are
  compared by plain string equality (in constant time: \<open>auth_handle_request_eq\<close>); that the longest prefix is chosen before
  the method is looked at (both at once: \<open>route_longest_prefix\<close>); that clients are limited by their
  \<open>X-Forwarded-For\<close> (by the socket's address); that statuses from 500 count as errors (from 400:
  \<open>is_error\<close>); that a closed WebSocket is passed on as a bare close of the connection (as the close frame:
  \<open>ws_session_carries\<close>); that a global timeout of 30 seconds ends every request (there is none, so that an open event
  stream ends only with its client: \<open>stop_returns\<close>); that ZeroMQ topics share a frame with the body (\<open>pub_message_frames\<close>).
\<close>

section \<open>Runs of a gateway\<close>

text \<open>
  A run is a sequence of requests, to the routes or to the admin API, served one after the other.
  The answer of an admin handler is a parameter that leaves the middleware chain alone, as all
  handlers of \<open>src/admin/handlers.rs\<close> do: none of them holds the chain.
\<close>

datatype arrival =
    Gateway_Arrival externals moment incoming
  | Admin_Arrival externals instant "app_state \<Rightarrow> http_reply \<times> app_state" incoming

fun arrival_time :: "arrival \<Rightarrow> instant" where
  "arrival_time (Gateway_Arrival ex mo req) = mo_now mo"
| "arrival_time (Admin_Arrival ex now inner req) = now"

fun keeps_chain :: "arrival \<Rightarrow> bool" where
  "keeps_chain (Gateway_Arrival ex mo req) = True"
| "keeps_chain (Admin_Arrival ex now inner req) =
     (\<forall>st. as_middleware (snd (inner st)) = as_middleware st)"

text \<open>What was asked of the backends: when, for which client, and what.\<close>

fun serve :: "app_state \<Rightarrow> arrival list \<Rightarrow> (instant \<times> string \<times> upstream_call list) list" where
  "serve st [] = []"
| "serve st (Gateway_Arrival ex mo req # as) =
     (case handle_request ex mo req st of
        Some (reply, st', calls) \<Rightarrow> (mo_now mo, in_remote_ip req, calls) # serve st' as
      | None \<Rightarrow> serve st as)"
| "serve st (Admin_Arrival ex now inner req # as) =
     serve (snd (admin_middleware ex now inner req st)) as"

definition admitted :: "(instant \<times> string \<times> upstream_call list) list \<Rightarrow> history" where
  "admitted served = map (\<lambda>(t, ip, calls). (t, ip)) (filter (\<lambda>(t, ip, calls). \<not> list_all is_ws_call calls) served)"

lemma admitted_simps [simp]:
  "admitted [] = []"
  "admitted ((t, ip, calls) # served) = (if list_all is_ws_call calls then [] else [(t, ip)]) @ admitted served"
  by (simp_all add: admitted_def)


lemma serve_limiter:
  assumes "as_middleware st = chain_with config limits" "rl_enabled (ms_rate_limit config)"
    and "list_all keeps_chain arrivals"
    and "run = limiter_run (rl_requests_per_window (ms_rate_limit config))
      (unat (rl_window_secs (ms_rate_limit config)) * NANOS_PER_SEC)"
  shows "\<exists>evs. subseq (map fst evs) (map arrival_time arrivals) \<and>
    subseq (admitted (serve st arrivals)) (fst (run limits evs))"
  using assms
proof (induction st arrivals arbitrary: limits rule: serve.induct)
  case (1 st)
  show ?case by (rule exI [of _ "[]"]) simp
next
  case (2 st ex mo req rest)
  show ?case
  proof (cases "handle_request ex mo req st")
    case None
    from "2.IH"(1) [OF None "2.prems"(1,2)] "2.prems"(3,4) None show ?thesis
      by auto
  next
    case (Some h)
    then obtain reply st' calls where h: "handle_request ex mo req st = Some (reply, st', calls)"
      by (cases h) auto
    obtain evs1 where 1: "evs1 \<in> {[], [(mo_now mo, in_remote_ip req)]}"
      "as_middleware st' = chain_with config (snd (run limits evs1))"
      "\<not> list_all is_ws_call calls \<Longrightarrow> fst (run limits evs1) = [(mo_now mo, in_remote_ip req)]"
      using gateway_one_call [OF "2.prems"(1,2) h] "2.prems"(4) by (auto simp: one_call_def Let_def)
    obtain evs2 where 2: "subseq (map fst evs2) (map arrival_time rest)"
      "subseq (admitted (serve st' rest)) (fst (run (snd (run limits evs1)) evs2))"
      using "2.IH"(2) [OF h refl refl 1(2) "2.prems"(2) _ "2.prems"(4)] "2.prems"(3) by auto
    show ?thesis
      by (rule exI [of _ "evs1 @ evs2"]) (use 1 2 h "2.prems"(4) in \<open>auto split: prod.splits bool.splits\<close>)
  qed
next
  case (3 st ex now inner req rest)
  obtain evs1 where 1: "evs1 \<in> {[], [(now, in_remote_ip req)]}"
    "as_middleware (snd (admin_middleware ex now inner req st)) = chain_with config (snd (run limits evs1))"
    using admin_one_call [OF "3.prems"(1,2), of inner now req ex] "3.prems"(3,4) by (auto simp: one_call_def Let_def)
  obtain evs2 where 2: "subseq (map fst evs2) (map arrival_time rest)"
    "subseq (admitted (serve (snd (admin_middleware ex now inner req st)) rest))
       (fst (run (snd (run limits evs1)) evs2))"
    using "3.IH" [OF 1(2) "3.prems"(2) _ "3.prems"(4)] "3.prems"(3) by auto
  show ?case
    by (rule exI [of _ "evs1 @ evs2"]) (use 1 2 "3.prems"(4) in \<open>auto split: prod.splits bool.splits\<close>)
qed


text \<open>
  C2: the rate limit bounds what the backends see. Take a gateway created from a configuration with
  rate limiting enabled, and any sequence of requests to it and to its admin API. In every interval as
  long as the window, the requests of one address that lead to any call of a backend, other than
  over WebSocket, are at most the configured number.
\<close>

theorem backend_traffic_bounded:
  assumes "create_gateway config started_at = Ok g" "limit = ms_rate_limit (gc_middleware config)"
    and "rl_enabled limit" "sorted (map arrival_time arrivals)" "list_all keeps_chain arrivals"
    and "window = unat (rl_window_secs limit) * NANOS_PER_SEC"
  shows "length (in_window (admitted (serve (gw_state g) arrivals)) ip a window)
    \<le> unat (rl_requests_per_window limit)"
proof -
  have "as_middleware (gw_state g) = chain_with (gc_middleware config) []"
    using assms(1) by (auto simp: create_gateway_def build_middleware_chain_with)
  then obtain evs where evs: "subseq (map fst evs) (map arrival_time arrivals)"
    "subseq (admitted (serve (gw_state g) arrivals))
       (fst (limiter_run (rl_requests_per_window limit) window [] evs))"
    using serve_limiter [of "gw_state g" "gc_middleware config" "[]" arrivals] assms(2-6) by auto
  have "sorted (map fst evs)" using evs(1) assms(4) by (rule sorted_subseq)
  then have "length (in_window (fst (limiter_run (rl_requests_per_window limit) window [] evs)) ip a window)
      \<le> unat (rl_requests_per_window limit)"
    by (rule limiter_run_window)
  moreover have "length (in_window (admitted (serve (gw_state g) arrivals)) ip a window)
      \<le> length (in_window (fst (limiter_run (rl_requests_per_window limit) window [] evs)) ip a window)"
    using evs(2) by (auto simp: in_window_def intro: list_emb_length subseq_filter)
  ultimately show ?thesis by linarith
qed


text \<open>Two requests within one window of a limit of one: the backend sees only the first.\<close>

theorem backend_traffic_bounded_witness:
  "\<exists>g. create_gateway limited_config 0 = Ok g \<and>
     length (in_window (admitted (serve (gw_state g)
       [Gateway_Arrival refusing noon (get_request ''/api''),
        Admin_Arrival refusing 5 (\<lambda>st. (status_reply 200, st)) (get_request ''/admin/api/health''),
        Gateway_Arrival refusing (noon\<lparr>mo_now := 9\<rparr>) (get_request ''/api'')]))
       ''10.0.0.1'' 0 (60 * NANOS_PER_SEC)) \<le> 1"
proof -
  obtain g where g: "create_gateway limited_config 0 = Ok g"
    by (simp add: create_gateway_def limited_config_def proxy_config_def minimal_config_def build_protocols_def)
  have limit: "ms_rate_limit (gc_middleware limited_config)
      = \<lparr>rl_enabled = True, rl_requests_per_window = 1, rl_window_secs = 60\<rparr>"
    by (simp add: limited_config_def)
  show ?thesis
    using backend_traffic_bounded [OF g limit [symmetric], of
        "[Gateway_Arrival refusing noon (get_request ''/api''),
          Admin_Arrival refusing 5 (\<lambda>st. (status_reply 200, st)) (get_request ''/admin/api/health''),
          Gateway_Arrival refusing (noon\<lparr>mo_now := 9\<rparr>) (get_request ''/api'')]" _ "''10.0.0.1''" 0]
      g by (auto simp: noon_def)
qed

section \<open>A validated configuration is usable\<close>

text \<open>
  C27: what the transports check again at run time, for a route of a validated configuration. An HTTP or gRPC
  request is refused only for its path or query, a GraphQL request never; a WebSocket address always normalises and
  is encrypted exactly when the configured one is. A ZeroMQ target always becomes a tcp address, so that a socket which
  takes those gets the message in each of the three patterns, and an AMQP publish succeeds with every broker
  that answers: neither transport checks anything itself. An MQTT quality of service is always accepted, but an MQTT
  address only when it is a scheme with a host and a port: validation does not ask for a port.
\<close>

theorem validated_routes_usable:
  assumes "validate config = Ok ()" "r \<in> set (gc_routes config)"
  shows "case rc_transport r of
      Http cfg \<Rightarrow> is_ok (http_assemble m (ht_url cfg) path query hs body (ht_timeout_secs cfg)) =
        (\<not> path_contains_traversal path \<and> path_is_safe path \<and> pred_option query_is_safe query)
    | GraphQL cfg \<Rightarrow> is_ok (graphql_assemble (gq_url cfg) hs body (gq_timeout_secs cfg))
    | Grpc cfg \<Rightarrow> is_ok (grpc_assemble (gr_url cfg) path hs body (gr_timeout_secs cfg)) =
        (\<not> path_contains_traversal path \<and> path_is_safe path)
    | WebSocket cfg \<Rightarrow> \<exists>url. normalize_ws_url (wt_url cfg) = Inr url \<and>
        starts_with url ''wss://'' = (starts_with (wt_url cfg) ''wss://'' \<or> starts_with (wt_url cfg) ''https://'')
    | Mqtt cfg \<Rightarrow> is_ok (qos_from_u8 (mt_qos cfg)) \<and>
        is_ok (parse_broker_url (mt_broker_url cfg)) = (\<exists>host port tls. broker_address (mt_broker_url cfg) host port tls)
    | Amqp cfg \<Rightarrow>
        is_ok (fst (amqp_publish \<lparr>ab_answer = \<lambda>_ _. Done (), ab_confirmation = \<lambda>_. Done (Confirm_Ack None)\<rparr> cfg body))
    | Zmq cfg \<Rightarrow>
        (let socket = \<lparr>zs_connect = \<lambda>addr. if starts_with addr ''tcp://'' then Inr () else Inl ''transport'',
               zs_send = \<lambda>_. Inr (), zs_recv = Done reply\<rparr>
         in case zt_pattern cfg of
              ReqRep \<Rightarrow> forward_req_rep socket (zt_address cfg) body (zt_timeout_secs cfg) = Ok (concat reply)
            | Push \<Rightarrow> is_ok (forward_push socket (zt_address cfg) body)
            | PubSub \<Rightarrow> is_ok (forward_pub socket (zt_address cfg) body (zt_topic cfg)))"
proof -
  have tcp: "starts_with (to_tcp_addr addr) ''tcp://''" for addr
    using to_tcp_addr_tcp [of addr] by auto
  have mqtt: "is_ok (parse_broker_url url) = (\<exists>host port tls. broker_address url host port tls)" for url
    unfolding parse_broker_url_Ok_iff [symmetric] by (metis broker_endpoint.surjective is_ok_iff old.unit.exhaust)
  have "well_formed_transport (rc_transport r)"
    using assms by (auto simp: validate_iff well_formed_def well_formed_route_def list_all_iff)
  then show ?thesis
    by (cases "rc_transport r")
      (simp_all add: http_url_scheme http_assemble_ok_iff grpc_assemble_ok_iff graphql_assemble_def
        ws_url_normalizes mqtt qos_in_range amqp_accepted forward_req_rep_def forward_push_def forward_pub_def
        connect_and_send_def tcp msg_to_bytes_def Let_def split: zmq_pattern.split)
qed

theorem validated_routes_usable_witness:
  "is_ok (http_assemble ''GET'' ''http://127.0.0.1:9000'' ''/api/x'' (Some ''q=1'') [] [] 30) =
     (\<not> path_contains_traversal ''/api/x'' \<and> path_is_safe ''/api/x'' \<and> pred_option query_is_safe (Some ''q=1''))"
proof -
  have "well_formed proxy_config"
    by (simp add: well_formed_def well_formed_route_def proxy_config_def minimal_config_def http_route_def
        default_middleware_def default_rate_limit_config_def url_with_def trim_is_empty.simps byte_of_def)
  then have "validate proxy_config = Ok ()" by (simp add: validate_iff)
  moreover have "http_route ''/api'' [] \<in> set (gc_routes proxy_config)" by (simp add: proxy_config_def)
  ultimately show ?thesis
    using validated_routes_usable [of proxy_config "http_route ''/api'' []" "''GET''" "''/api/x''" "Some ''q=1''" "[]" "[]"]
    by (simp add: http_route_def)
qed

end
